theory Spec2Isabelle
  imports Main "HOL-Library.Sublist"
begin

section \<open>Data model\<close>

text \<open>
  The enum \<open>PropType\<close> of the source; \<open>PropType_value\<close> gives the string each member
  stands for at run time (\<open>UNDEFINED = 'undefined'\<close>, ...).
\<close>

datatype PropType = UNDEFINED | NULL | BOOLEAN | NUMBER | STRING | ARRAY | OBJECT

fun PropType_value :: "PropType \<Rightarrow> string" where
  "PropType_value UNDEFINED = ''undefined''"
| "PropType_value NULL = ''null''"
| "PropType_value BOOLEAN = ''boolean''"
| "PropType_value NUMBER = ''number''"
| "PropType_value STRING = ''string''"
| "PropType_value ARRAY = ''array''"
| "PropType_value OBJECT = ''object''"

text \<open>The interface \<open>ValidationError\<close>: four string fields.\<close>

record ValidationError =
  path :: string
  expected :: string
  received :: string
  message :: string

text \<open>
  \<open>PrimitiveValue = string | number | boolean | null | undefined\<close> and
  \<open>JsonValue = PrimitiveValue | JsonValue[] | { [key: string]: JsonValue }\<close>.

  The program never calculates with a number: it classifies it (\<open>typeof\<close>), compares it
  with the members of \<open>allowedValues\<close> (\<open>Array.prototype.includes\<close>, that is SameValueZero)
  and prints it (\<open>String(data)\<close>, template literals, \<open>join\<close>). A number is therefore
  represented by the text \<open>String\<close> gives for it: two numbers have the same text exactly
  when SameValueZero identifies them (\<open>NaN\<close> prints as \<open>NaN\<close>, both zeros as \<open>0\<close>).

  An object is the list of its own enumerable properties in the order \<open>Object.keys\<close> and
  \<open>Object.entries\<close> enumerate them. Property names that \<open>Object.prototype\<close> also
  defines (\<open>toString\<close>, \<open>constructor\<close>, ...) are outside the model, and data and schema
  share no object (\<open>includes\<close> compares objects by reference).
\<close>

type_synonym number = string

datatype PrimitiveValue =
    JString string | JNumber number | JBoolean bool | JNull | JUndefined

datatype JsonValue =
    Primitive PrimitiveValue
  | JArray "JsonValue list"
  | JObject "(string \<times> JsonValue) list"

text \<open>
  The values of the type \<open>Schema\<close>, by the shapes \<open>_normalizeSchema\<close> tells apart:
  \<^item> \<open>SProp t\<close>: a bare \<open>PropType\<close> string (\<open>typeof schema === 'string'\<close>);
  \<^item> \<open>SArray xs\<close>: an array literal (\<open>Array.isArray(schema)\<close>);
  \<^item> \<open>SLiteral kvs\<close>: an object with neither a \<open>dataType\<close> nor a \<open>oneOf\<close> key, whose
    keys are property names (the implicit object schema);
  \<^item> \<open>SUnion oneOf optional allowedValues\<close>: an object with a \<open>oneOf\<close> key
    (\<open>UnionSchema\<close>);
  \<^item> \<open>SData dataType optional allowedValues properties additionalProperties items\<close>:
    an object with a \<open>dataType\<close> key (\<open>BaseSchema\<close>, \<open>ObjectSchema\<close>, \<open>ArraySchema\<close>);
    an optional field that is absent is \<open>None\<close>;
  \<^item> \<open>SOneOfValue v optional allowedValues\<close>: an object whose \<open>oneOf\<close> key holds the
    schema value \<open>v\<close>, whatever \<open>v\<close> is. The index signatures of \<open>SchemaObject\<close> and
    \<open>SchemaLiteral\<close> admit any schema there, so \<open>{ oneOf: PropType.STRING }\<close>, that is
    \<open>SOneOfValue (SProp STRING) None None\<close>, is a value of the type \<open>Schema\<close>. When \<open>v\<close> is
    an array literal \<open>SArray xs\<close>, the object is the one \<open>SUnion xs\<close> stands for;
  \<^item> \<open>SUndefined\<close>: the value \<open>undefined\<close>, which is what \<open>schema[0]\<close> is for the empty
    array literal \<open>[]\<close> (a value of type \<open>PropType[]\<close>).

  The other fields of \<open>SUnion\<close>, \<open>SOneOfValue\<close> and \<open>SData\<close> have the types the
  interfaces declare. An implicit object that uses \<open>dataType\<close> or \<open>oneOf\<close> as a property
  name is not a \<open>SLiteral\<close>: the code takes it for an explicit schema (the README tells
  users to write such objects in full notation); with the key \<open>oneOf\<close> it is a
  \<open>SOneOfValue\<close>.
\<close>

datatype Schema =
    SUndefined
  | SProp PropType
  | SArray "Schema list"
  | SLiteral "(string \<times> Schema) list"
  | SUnion "Schema list" "bool option" "PrimitiveValue list option"
  | SOneOfValue Schema "bool option" "PrimitiveValue list option"
  | SData PropType "bool option" "PrimitiveValue list option"
          "(string \<times> Schema) list option" "bool option" "Schema option"

text \<open>The only exception the program can raise on these inputs.\<close>

datatype js_error = TypeError

text \<open>The static field \<open>_strict\<close> is initialised to \<open>true\<close>; the functions below take the
  current value of the flag as their first argument.\<close>

definition strict_default :: bool where
  "strict_default = True"

section \<open>Strings\<close>

definition digit :: "nat \<Rightarrow> char" where
  "digit d = ''0123456789'' ! d"

text \<open>The decimal text of an array index or a length (\<open>`${i}`\<close>).\<close>

function show_nat :: "nat \<Rightarrow> string" where
  "show_nat n = (if n < 10 then [digit n] else show_nat (n div 10) @ [digit (n mod 10)])"
  by pat_completeness auto
termination
  by (relation "measure id") auto

declare show_nat.simps [simp del]

fun join :: "string \<Rightarrow> string list \<Rightarrow> string" where
  "join sep [] = []"
| "join sep [x] = x"
| "join sep (x # y # ys) = x @ sep @ join sep (y # ys)"

fun String_primitive :: "PrimitiveValue \<Rightarrow> string" where
  "String_primitive (JString s) = s"
| "String_primitive (JNumber n) = n"
| "String_primitive (JBoolean b) = (if b then ''true'' else ''false'')"
| "String_primitive JNull = ''null''"
| "String_primitive JUndefined = ''undefined''"

text \<open>\<open>String(data)\<close>: an array prints its elements joined by commas, \<open>null\<close> and
  \<open>undefined\<close> elements as the empty string; an object prints as \<open>[object Object]\<close>.\<close>

fun String_value :: "JsonValue \<Rightarrow> string" where
  "String_value (Primitive v) = String_primitive v"
| "String_value (JArray xs) =
     join '','' (map (\<lambda>x. if x = Primitive JNull \<or> x = Primitive JUndefined then []
                          else String_value x) xs)"
| "String_value (JObject kvs) = ''[object Object]''"

text \<open>\<open>allowedValues.join(', ')\<close>.\<close>

definition join_primitives :: "PrimitiveValue list \<Rightarrow> string" where
  "join_primitives vs =
     join '', '' (map (\<lambda>v. if v = JNull \<or> v = JUndefined then [] else String_primitive v) vs)"

text \<open>\<open>allowedValues.includes(data as PrimitiveValue)\<close>: an array or an object is never
  found among primitive values.\<close>

fun array_includes :: "PrimitiveValue list \<Rightarrow> JsonValue \<Rightarrow> bool" where
  "array_includes vs (Primitive v) = (v \<in> set vs)"
| "array_includes vs (JArray xs) = False"
| "array_includes vs (JObject kvs) = False"

section \<open>The runtime type classifier\<close>

fun typeof :: "JsonValue \<Rightarrow> string" where
  "typeof (Primitive (JString s)) = ''string''"
| "typeof (Primitive (JNumber n)) = ''number''"
| "typeof (Primitive (JBoolean b)) = ''boolean''"
| "typeof (Primitive JUndefined) = ''undefined''"
| "typeof (Primitive JNull) = ''object''"
| "typeof (JArray xs) = ''object''"
| "typeof (JObject kvs) = ''object''"

fun isArray :: "JsonValue \<Rightarrow> bool" where
  "isArray (JArray xs) = True"
| "isArray (Primitive v) = False"
| "isArray (JObject kvs) = False"

definition getTypeOf :: "JsonValue \<Rightarrow> string" where
  "getTypeOf data =
     (let typeString = typeof data in
      if typeString = ''object''
      then (if isArray data then ''array''
            else if data = Primitive JNull then ''null'' else ''object'')
      else typeString)"

section \<open>The schema normalizer\<close>

text \<open>
  A call that may throw returns \<open>Inl\<close> of the exception or \<open>Inr\<close> of its value.
  \<open>collect_results\<close> is what \<open>xs.map(f)\<close> comes to when \<open>f\<close> may throw: the list of the
  values, or the exception of the first element that throws. \<open>map_sum id g r\<close> applies
  \<open>g\<close> to the value of \<open>r\<close> and passes an exception on.
\<close>

fun collect_results :: "(js_error + 'a) list \<Rightarrow> js_error + 'a list" where
  "collect_results [] = Inr []"
| "collect_results (r # rs) =
     (case r of
        Inl e \<Rightarrow> Inl e
      | Inr x \<Rightarrow> (case collect_results rs of Inl e \<Rightarrow> Inl e | Inr xs \<Rightarrow> Inr (x # xs)))"

text \<open>
  \<open>_normalizeSchema\<close>, branch by branch. For an array literal of at most one element the
  code reads \<open>schema[0]\<close>, which is \<open>undefined\<close> for \<open>[]\<close>; its two branches on
  \<open>Array.isArray(firstItem)\<close> return the same object. In the implicit object branch an
  array-valued property is expanded in place, with \<open>value.length === 1\<close> deciding between
  the element and a union. In the union branch (line 387) the code calls
  \<open>unionSchema.oneOf.map\<close>: when the value of \<open>oneOf\<close> is not an array it has no method
  \<open>map\<close>, and the call throws a \<open>TypeError\<close>. An object with \<open>dataType\<close> and no
  \<open>properties\<close> is returned as it is (its \<open>items\<close> included), and so is \<open>undefined\<close>.
\<close>

fun normalizeSchema :: "bool \<Rightarrow> Schema \<Rightarrow> js_error + Schema" where
  "normalizeSchema strict (SProp t) = Inr (SData t None None None None None)"
| "normalizeSchema strict (SArray xs) =
     (if length xs > 1
      then map_sum id (\<lambda>ys. SData ARRAY None None None None (Some (SUnion ys None None)))
             (collect_results (map (normalizeSchema strict) xs))
      else (case xs of
              [] \<Rightarrow> Inr (SData ARRAY None None None None (Some SUndefined))
            | firstItem # _ \<Rightarrow>
                map_sum id (\<lambda>n. SData ARRAY None None None None (Some n))
                  (normalizeSchema strict firstItem)))"
| "normalizeSchema strict (SLiteral kvs) =
     map_sum id (\<lambda>props. SData OBJECT None None (Some props) (Some (\<not> strict)) None)
       (collect_results
          (map (\<lambda>(key, v).
                  map_sum id (Pair key)
                    (case v of
                       SArray ys \<Rightarrow>
                         map_sum id (\<lambda>its. SData ARRAY None None None None (Some its))
                           (case ys of
                              [y] \<Rightarrow> normalizeSchema strict y
                            | _ \<Rightarrow> map_sum id (\<lambda>ns. SUnion ns None None)
                                     (collect_results (map (normalizeSchema strict) ys)))
                     | _ \<Rightarrow> normalizeSchema strict v)) kvs))"
| "normalizeSchema strict (SUnion oneOf optional allowedValues) =
     map_sum id (\<lambda>ns. SUnion ns optional allowedValues)
       (collect_results (map (normalizeSchema strict) oneOf))"
| "normalizeSchema strict (SOneOfValue v optional allowedValues) =
     (case v of
        SArray xs \<Rightarrow>
          map_sum id (\<lambda>ns. SUnion ns optional allowedValues)
            (collect_results (map (normalizeSchema strict) xs))
      | _ \<Rightarrow> Inl TypeError)"
| "normalizeSchema strict (SData t optional allowedValues (Some props) addl its) =
     map_sum id (\<lambda>ps. SData t optional allowedValues (Some ps) addl its)
       (collect_results
          (map (\<lambda>(key, v). map_sum id (Pair key) (normalizeSchema strict v)) props))"
| "normalizeSchema strict (SData t optional allowedValues None addl its) =
     Inr (SData t optional allowedValues None addl its)"
| "normalizeSchema strict SUndefined = Inr SUndefined"

section \<open>The validation engine\<close>

subsection \<open>The errors the engine builds\<close>

text \<open>Lines 96--101 and 144--149: the generic union error.\<close>

definition union_error :: "string \<Rightarrow> Schema list \<Rightarrow> string \<Rightarrow> ValidationError" where
  "union_error p oneOf receivedType =
     \<lparr>path = p,
      expected = ''one of '' @ show_nat (length oneOf) @ '' possible types'',
      received = receivedType,
      message = ''Value does not match any of the allowed schemas''\<rparr>"

text \<open>Lines 118--123 and 177--182: the value-restriction error.\<close>

definition allowedValues_error ::
    "string \<Rightarrow> PrimitiveValue list \<Rightarrow> JsonValue \<Rightarrow> ValidationError" where
  "allowedValues_error p vs data =
     \<lparr>path = p,
      expected = ''one of ['' @ join_primitives vs @ '']'',
      received = String_value data,
      message = ''Value '' @ String_value data @ '' is not in the allowed set of values''\<rparr>"

text \<open>Lines 114--124 and 173--183: the test is \<open>allowedValues && !allowedValues.includes(data)\<close>;
  an array, empty or not, is truthy.\<close>

definition check_allowedValues ::
    "PrimitiveValue list option \<Rightarrow> JsonValue \<Rightarrow> string \<Rightarrow> ValidationError list" where
  "check_allowedValues allowedValues data p =
     (case allowedValues of
        None \<Rightarrow> []
      | Some vs \<Rightarrow> if \<not> array_includes vs data then [allowedValues_error p vs data] else [])"

text \<open>Lines 160--168: the type mismatch error.\<close>

definition type_error :: "string \<Rightarrow> PropType \<Rightarrow> string \<Rightarrow> ValidationError" where
  "type_error p dataType type =
     (let expectedType = (if dataType = OBJECT then ''object'' else PropType_value dataType);
          receivedType = (if type = PropType_value OBJECT then ''object'' else type) in
      \<lparr>path = p, expected = expectedType, received = receivedType,
       message = ''Expected type '' @ expectedType @ '' but received '' @ receivedType\<rparr>)"

text \<open>Lines 191--196 and 234--239: the errors of the two structural guards.\<close>

definition expected_object_error :: "string \<Rightarrow> string \<Rightarrow> ValidationError" where
  "expected_object_error p type =
     \<lparr>path = p, expected = ''object'', received = type,
      message = ''Expected object but received '' @ type\<rparr>"

definition expected_array_error :: "string \<Rightarrow> string \<Rightarrow> ValidationError" where
  "expected_array_error p type =
     \<lparr>path = p, expected = ''array'', received = type,
      message = ''Expected array but received '' @ type\<rparr>"

text \<open>\<open>path ? `${path}.${key}` : key\<close> and \<open>`${path}[${i}]`\<close>.\<close>

definition property_path :: "string \<Rightarrow> string \<Rightarrow> string" where
  "property_path p key = (if p \<noteq> [] then p @ ''.'' @ key else key)"

definition item_path :: "string \<Rightarrow> nat \<Rightarrow> string" where
  "item_path p i = p @ ''['' @ show_nat i @ '']''"

text \<open>\<open>dataObj[key]\<close>: \<open>undefined\<close> for a key the object does not have.\<close>

definition get_property :: "(string \<times> JsonValue) list \<Rightarrow> string \<Rightarrow> JsonValue" where
  "get_property dataObj key =
     (case map_of dataObj key of Some v \<Rightarrow> v | None \<Rightarrow> Primitive JUndefined)"

text \<open>Lines 210--225: one error for every key of the data that the schema does not declare,
  unless \<open>additionalProperties\<close> is \<open>true\<close>.\<close>

definition unexpected_property_errors ::
    "string \<Rightarrow> bool option \<Rightarrow> (string \<times> Schema) list \<Rightarrow> (string \<times> JsonValue) list
       \<Rightarrow> ValidationError list" where
  "unexpected_property_errors p additionalProperties props dataObj =
     (if additionalProperties \<noteq> Some True then
        (let unexpectedProps = filter (\<lambda>key. key \<notin> set (map fst props)) (map fst dataObj) in
         map (\<lambda>key. \<lparr>path = property_path p key,
                     expected = ''undefined'',
                     received = getTypeOf (get_property dataObj key),
                     message = ''Unexpected property \"'' @ key @ ''\"''\<rparr>)
             unexpectedProps)
      else [])"

text \<open>Lines 130--152: what the union branch reports when no alternative matched.\<close>

definition combine_union_errors ::
    "string \<Rightarrow> Schema list \<Rightarrow> JsonValue \<Rightarrow> ValidationError list list \<Rightarrow> ValidationError list"
  where
  "combine_union_errors p oneOf data allErrors =
     (let combinedErrors = concat allErrors in
      if length combinedErrors > 0 then
        (let hasPropertyErrors = list_ex (\<lambda>error. path error \<noteq> p) combinedErrors;
             hasTypeErrors = list_ex (\<lambda>error. path error = p) combinedErrors in
         if hasPropertyErrors then filter (\<lambda>error. path error \<noteq> p) combinedErrors
         else if hasTypeErrors then [union_error p oneOf (getTypeOf data)]
         else [])
      else [])"

text \<open>\<open>data as JsonObject\<close> and the elements of \<open>data\<close>, where the guards before them have
  established that \<open>data\<close> is an object, respectively an array.\<close>

fun object_entries :: "JsonValue \<Rightarrow> (string \<times> JsonValue) list" where
  "object_entries (JObject kvs) = kvs"
| "object_entries (JArray xs) = []"
| "object_entries (Primitive v) = []"

fun array_elements :: "JsonValue \<Rightarrow> JsonValue list" where
  "array_elements (JArray xs) = xs"
| "array_elements (JObject kvs) = []"
| "array_elements (Primitive v) = []"

subsection \<open>Termination measure\<close>

text \<open>A weight that normalisation does not increase and that every nested schema of a
  canonical schema undercuts.\<close>

fun weight :: "Schema \<Rightarrow> nat" where
  "weight SUndefined = 1"
| "weight (SProp t) = 1"
| "weight (SArray xs) = 3 + sum_list (map weight xs)"
| "weight (SLiteral kvs) = 1 + sum_list (map (\<lambda>(k, v). weight v) kvs)"
| "weight (SUnion oneOf optional allowedValues) = 1 + sum_list (map weight oneOf)"
| "weight (SOneOfValue v optional allowedValues) = 1 + weight v"
| "weight (SData t optional allowedValues props addl its) =
     1 + (case props of None \<Rightarrow> 0 | Some ps \<Rightarrow> sum_list (map (\<lambda>(k, v). weight v) ps))
       + (case its of None \<Rightarrow> 0 | Some i \<Rightarrow> weight i)"

lemma weight_pos: "0 < weight s"
  by (cases s) auto

lemma collect_results_map_Inr: "collect_results (map Inr ys) = Inr ys"
  by (induction ys) auto

lemma collect_results_Inr_iff: "collect_results rs = Inr ys \<longleftrightarrow> rs = map Inr ys"
proof
  show "collect_results rs = Inr ys \<Longrightarrow> rs = map Inr ys"
    by (induction rs arbitrary: ys) (auto split: sum.splits)
qed (simp add: collect_results_map_Inr)

lemma collect_results_map:
  "collect_results (map f xs) = Inr ys \<longleftrightarrow> list_all2 (\<lambda>x y. f x = Inr y) xs ys"
  unfolding collect_results_Inr_iff
  by (induction xs arbitrary: ys) (auto simp: list_all2_Cons1)

lemma map_sum_id_Inr_iff: "map_sum id g r = Inr y \<longleftrightarrow> (\<exists>x. r = Inr x \<and> y = g x)"
  by (cases r) auto

lemma map_sum_id_Inl_iff: "map_sum id g r = Inl e \<longleftrightarrow> r = Inl e"
  by (cases r) auto

lemma collect_results_entries:
  "collect_results (map (\<lambda>(key, v). map_sum id (Pair key) (f v)) kvs) = Inr ps \<longleftrightarrow>
     list_all2 (\<lambda>(key, v) (key', n). key' = key \<and> f v = Inr n) kvs ps"
  unfolding collect_results_map
  by (rule arg_cong2 [where f = "\<lambda>P. list_all2 P kvs"]) (auto simp: fun_eq_iff map_sum_id_Inr_iff)

lemma sum_list_weight_le:
  "list_all2 (\<lambda>x y. weight y \<le> weight x) xs ys \<Longrightarrow>
     sum_list (map weight ys) \<le> sum_list (map weight xs)"
  by (induction rule: list_all2_induct) auto

lemma sum_list_weight_snd_le:
  "list_all2 (\<lambda>(k, v) (k', n). weight n \<le> weight v) kvs ps \<Longrightarrow>
     sum_list (map (\<lambda>(k, v). weight v) ps) \<le> sum_list (map (\<lambda>(k, v). weight v) kvs)"
  by (induction rule: list_all2_induct) auto

lemma weight_normalizeSchema:
  "normalizeSchema strict s = Inr n \<Longrightarrow> weight n \<le> weight s"
proof (induction s arbitrary: n)
  case (SArray xs)
  show ?case
  proof (cases "length xs > 1")
    case True
    with SArray.prems obtain ys
      where ys: "list_all2 (\<lambda>x y. normalizeSchema strict x = Inr y) xs ys"
        and n: "n = SData ARRAY None None None None (Some (SUnion ys None None))"
      by (auto simp: map_sum_id_Inr_iff collect_results_map)
    from ys have "list_all2 (\<lambda>x y. weight y \<le> weight x) xs ys"
      by (rule list.rel_mono_strong) (use SArray.IH in auto)
    then show ?thesis using n sum_list_weight_le by fastforce
  next
    case False
    show ?thesis
    proof (cases xs)
      case Nil
      then show ?thesis using SArray.prems by auto
    next
      case (Cons a rest)
      with False SArray.prems obtain m
        where m: "normalizeSchema strict a = Inr m"
          and n: "n = SData ARRAY None None None None (Some m)"
        by (auto simp: map_sum_id_Inr_iff)
      from SArray.IH [of a m] m Cons have "weight m \<le> weight a" by simp
      then show ?thesis using n Cons by simp
    qed
  qed
next
  case (SLiteral kvs)
  let ?g = "\<lambda>v. case v of
              SArray ys \<Rightarrow>
                map_sum id (\<lambda>its. SData ARRAY None None None None (Some its))
                  (case ys of
                     [y] \<Rightarrow> normalizeSchema strict y
                   | _ \<Rightarrow> map_sum id (\<lambda>ns. SUnion ns None None)
                            (collect_results (map (normalizeSchema strict) ys)))
            | _ \<Rightarrow> normalizeSchema strict v"
  from SLiteral.prems obtain ps
    where ps: "list_all2 (\<lambda>(key, v) (key', m). key' = key \<and> ?g v = Inr m) kvs ps"
      and n: "n = SData OBJECT None None (Some ps) (Some (\<not> strict)) None"
    by (auto simp: map_sum_id_Inr_iff collect_results_entries)
  have g: "weight m \<le> weight v" if kv: "(k, v) \<in> set kvs" and m: "?g v = Inr m" for k v m
  proof (cases v)
    case (SArray ys)
    show ?thesis
    proof (cases ys)
      case Nil
      then show ?thesis using m SArray by (auto simp: map_sum_id_Inr_iff)
    next
      case (Cons y ys')
      then have "?g v = normalizeSchema strict v"
        using SArray by (cases ys') (simp_all add: sum.map_comp comp_def id_def)
      then show ?thesis using SLiteral.IH [of "(k, v)" v m] kv m by simp
    qed
  qed (use SLiteral.IH [of "(k, v)" v m] kv m in \<open>auto\<close>)
  from ps have "list_all2 (\<lambda>(k, v) (k', m). weight m \<le> weight v) kvs ps"
    by (rule list.rel_mono_strong) (use g in auto)
  then show ?case using n sum_list_weight_snd_le by fastforce
next
  case (SUnion oneOf optional allowedValues)
  from SUnion.prems obtain ns
    where ns: "list_all2 (\<lambda>x y. normalizeSchema strict x = Inr y) oneOf ns"
      and n: "n = SUnion ns optional allowedValues"
    by (auto simp: map_sum_id_Inr_iff collect_results_map)
  from ns have "list_all2 (\<lambda>x y. weight y \<le> weight x) oneOf ns"
    by (rule list.rel_mono_strong) (use SUnion.IH in auto)
  then show ?case using n sum_list_weight_le by fastforce
next
  case (SOneOfValue v optional allowedValues)
  from SOneOfValue.prems obtain xs ns
    where v: "v = SArray xs"
      and ns: "collect_results (map (normalizeSchema strict) xs) = Inr ns"
      and n: "n = SUnion ns optional allowedValues"
    by (auto simp: map_sum_id_Inr_iff split: Schema.splits)
  have "sum_list (map weight ns) \<le> 3 + sum_list (map weight xs)"
  proof (cases "length xs > 1")
    case True
    then have "normalizeSchema strict v
                 = Inr (SData ARRAY None None None None (Some (SUnion ns None None)))"
      using v ns by simp
    from SOneOfValue.IH [OF this] v show ?thesis by simp
  next
    case False
    show ?thesis
    proof (cases xs)
      case Nil
      then show ?thesis using ns by auto
    next
      case (Cons a rest)
      with False ns obtain m where m: "normalizeSchema strict a = Inr m" and "ns = [m]"
        by (auto split: sum.splits)
      then have "normalizeSchema strict v = Inr (SData ARRAY None None None None (Some m))"
        using v Cons False by simp
      from SOneOfValue.IH [OF this] v Cons \<open>ns = [m]\<close> show ?thesis by simp
    qed
  qed
  then show ?case using n v by simp
next
  case (SData t optional allowedValues props addl its)
  show ?case
  proof (cases props)
    case None
    then show ?thesis using SData.prems by auto
  next
    case (Some kvs)
    with SData.prems obtain ps
      where ps: "list_all2 (\<lambda>(key, v) (key', m). key' = key \<and> normalizeSchema strict v = Inr m)
                   kvs ps"
        and n: "n = SData t optional allowedValues (Some ps) addl its"
      by (auto simp: map_sum_id_Inr_iff collect_results_entries)
    from ps have "list_all2 (\<lambda>(k, v) (k', m). weight m \<le> weight v) kvs ps"
      by (rule list.rel_mono_strong) (use SData.IH(1) Some in fastforce)
    then show ?thesis using n Some sum_list_weight_snd_le by fastforce
  qed
qed auto

subsection \<open>validate\<close>

text \<open>
  \<open>validate\<close> with its three loops: \<open>validate_oneOf\<close> is the loop over the alternatives of a
  union (lines 105--128; it returns \<open>typeMatchFound\<close>, \<open>errors\<close> and \<open>allErrors\<close>),
  \<open>validate_properties\<close> the loop over the declared properties (lines 203--207) and
  \<open>validate_items\<close> the loop over the elements of an array (lines 244--251). An exception
  raised by a nested call leaves every loop.

  An exception of \<open>_normalizeSchema\<close> (line 77) leaves \<open>validate\<close>. A normalised schema
  that is \<open>undefined\<close> raises a \<open>TypeError\<close>: line 81 reads its property \<open>optional\<close> when
  \<open>data\<close> is \<open>undefined\<close>, and line 86 applies \<open>in\<close> to it otherwise. \<open>normalizeSchema\<close>
  returns nothing but \<open>SUnion\<close>, \<open>SData\<close> and \<open>SUndefined\<close> (lemma
  \<open>normalizeSchema_shape\<close>). The test of line 81 is the same for a union and for any
  other schema, and line 90 repeats it. The array block of line 229 is not entered after
  the object block, since \<open>dataType\<close> is \<open>object\<close> there.
\<close>

function validate ::
    "bool \<Rightarrow> JsonValue \<Rightarrow> Schema \<Rightarrow> string \<Rightarrow> js_error + ValidationError list"
  and validate_oneOf ::
    "bool \<Rightarrow> JsonValue \<Rightarrow> PrimitiveValue list option \<Rightarrow> Schema list \<Rightarrow> string
       \<Rightarrow> ValidationError list list
       \<Rightarrow> js_error + (bool \<times> ValidationError list \<times> ValidationError list list)"
  and validate_properties ::
    "bool \<Rightarrow> (string \<times> JsonValue) list \<Rightarrow> (string \<times> Schema) list \<Rightarrow> string
       \<Rightarrow> ValidationError list \<Rightarrow> js_error + ValidationError list"
  and validate_items ::
    "bool \<Rightarrow> JsonValue list \<Rightarrow> nat \<Rightarrow> Schema \<Rightarrow> string
       \<Rightarrow> ValidationError list \<Rightarrow> js_error + ValidationError list"
where
  "validate strict data schema p =
     (case normalizeSchema strict schema of
        Inl e \<Rightarrow> Inl e
      | Inr (SUnion oneOf optional allowedValues) \<Rightarrow>
          if data = Primitive JUndefined \<and> optional = Some True then Inr []
          else if data = Primitive JUndefined then Inr [union_error p oneOf ''undefined'']
          else
            (case validate_oneOf strict data allowedValues oneOf p [] of
               Inl e \<Rightarrow> Inl e
             | Inr (typeMatchFound, errors, allErrors) \<Rightarrow>
                 if \<not> typeMatchFound
                 then Inr (errors @ combine_union_errors p oneOf data allErrors)
                 else Inr errors)
      | Inr (SData dataType optional allowedValues properties additionalProperties items) \<Rightarrow>
          if data = Primitive JUndefined \<and> optional = Some True then Inr []
          else
            (let type = getTypeOf data in
             if type \<noteq> PropType_value dataType then Inr [type_error p dataType type]
             else
               (let errors = check_allowedValues allowedValues data p in
                if dataType = OBJECT then
                  (case properties of
                     None \<Rightarrow> Inr errors
                   | Some props \<Rightarrow>
                       if type \<noteq> ''object'' \<or> data = Primitive JNull
                       then Inr (errors @ [expected_object_error p type])
                       else
                         (let dataObj = object_entries data in
                          case validate_properties strict dataObj props p errors of
                            Inl e \<Rightarrow> Inl e
                          | Inr errors' \<Rightarrow>
                              Inr (errors' @
                                   unexpected_property_errors p additionalProperties
                                     props dataObj)))
                else if dataType = ARRAY then
                  (case items of
                     None \<Rightarrow> Inr errors
                   | Some its \<Rightarrow>
                       if \<not> isArray data
                       then Inr (errors @ [expected_array_error p type])
                       else validate_items strict (array_elements data) 0 its p errors)
                else Inr errors))
      | Inr _ \<Rightarrow> Inl TypeError)"
| "validate_oneOf strict data allowedValues [] p allErrors = Inr (False, [], allErrors)"
| "validate_oneOf strict data allowedValues (subSchema # rest) p allErrors =
     (case validate strict data subSchema p of
        Inl e \<Rightarrow> Inl e
      | Inr subErrors \<Rightarrow>
          if length subErrors = 0
          then Inr (True, check_allowedValues allowedValues data p, allErrors)
          else validate_oneOf strict data allowedValues rest p (allErrors @ [subErrors]))"
| "validate_properties strict dataObj [] p errors = Inr errors"
| "validate_properties strict dataObj ((key, propSchema) # rest) p errors =
     (let propPath = property_path p key in
      case validate strict (get_property dataObj key) propSchema propPath of
        Inl e \<Rightarrow> Inl e
      | Inr propErrors \<Rightarrow> validate_properties strict dataObj rest p (errors @ propErrors))"
| "validate_items strict xs i its p errors =
     (if i < length xs then
        (let item = xs ! i;
             itemPath = item_path p i in
         case validate strict item its itemPath of
           Inl e \<Rightarrow> Inl e
         | Inr itemErrors \<Rightarrow> validate_items strict xs (i + 1) its p (errors @ itemErrors))
      else Inr errors)"
  by pat_completeness auto

termination
  apply (relation "measures
    [\<lambda>x. case x of
        Inl (Inl (strict, data, schema, p)) \<Rightarrow> 2 * weight schema
      | Inl (Inr (strict, data, av, alts, p, acc)) \<Rightarrow> 2 * sum_list (map weight alts) + 1
      | Inr (Inl (strict, dataObj, props, p, errs)) \<Rightarrow>
          2 * sum_list (map (\<lambda>(k, v). weight v) props) + 1
      | Inr (Inr (strict, xs, i, its, p, errs)) \<Rightarrow> 2 * weight its + 1,
     \<lambda>x. case x of
        Inr (Inr (strict, xs, i, its, p, errs)) \<Rightarrow> length xs - i
      | _ \<Rightarrow> 0]")
  apply (simp_all add: weight_pos)
  subgoal premises prems using weight_normalizeSchema [OF prems(1)] by simp
  subgoal premises prems using weight_normalizeSchema [OF prems(1)] by simp
  subgoal premises prems using weight_normalizeSchema [OF prems(1)] by simp
  done

declare validate.simps [simp del] validate_items.simps [simp del]

section \<open>Notions the properties are stated with\<close>

text \<open>Whether a schema node carries the field \<open>dataType\<close>, respectively \<open>oneOf\<close>. A bare
  string, an array literal, an implicit object and \<open>undefined\<close> carry neither.\<close>

fun has_dataType :: "Schema \<Rightarrow> bool" where
  "has_dataType (SData t optional allowedValues props addl its) = True"
| "has_dataType (SUnion oneOf optional allowedValues) = False"
| "has_dataType (SOneOfValue v optional allowedValues) = False"
| "has_dataType (SLiteral kvs) = False"
| "has_dataType (SArray xs) = False"
| "has_dataType (SProp t) = False"
| "has_dataType SUndefined = False"

fun has_oneOf :: "Schema \<Rightarrow> bool" where
  "has_oneOf (SUnion oneOf optional allowedValues) = True"
| "has_oneOf (SOneOfValue v optional allowedValues) = True"
| "has_oneOf (SData t optional allowedValues props addl its) = False"
| "has_oneOf (SLiteral kvs) = False"
| "has_oneOf (SArray xs) = False"
| "has_oneOf (SProp t) = False"
| "has_oneOf SUndefined = False"

definition exactly_one_of_dataType_oneOf :: "Schema \<Rightarrow> bool" where
  "exactly_one_of_dataType_oneOf s = (has_dataType s \<noteq> has_oneOf s)"

text \<open>The nodes of a schema: the schema itself and the nodes of the schemas nested in it
  (alternatives, property schemas, item schema, elements of an array literal).\<close>

fun schema_nodes :: "Schema \<Rightarrow> Schema list" where
  "schema_nodes (SUnion oneOf optional allowedValues) =
     SUnion oneOf optional allowedValues # concat (map schema_nodes oneOf)"
| "schema_nodes (SOneOfValue v optional allowedValues) =
     SOneOfValue v optional allowedValues # schema_nodes v"
| "schema_nodes (SData t optional allowedValues props addl its) =
     SData t optional allowedValues props addl its
       # (case props of None \<Rightarrow> [] | Some ps \<Rightarrow> concat (map (\<lambda>(k, v). schema_nodes v) ps))
       @ (case its of None \<Rightarrow> [] | Some i \<Rightarrow> schema_nodes i)"
| "schema_nodes (SLiteral kvs) = SLiteral kvs # concat (map (\<lambda>(k, v). schema_nodes v) kvs)"
| "schema_nodes (SArray xs) = SArray xs # concat (map schema_nodes xs)"
| "schema_nodes (SProp t) = [SProp t]"
| "schema_nodes SUndefined = [SUndefined]"

text \<open>The schemas in which \<open>undefined\<close> does not occur, no array literal that the array
  rule (lines 331--354) normalises is empty, and every union is a \<open>SUnion\<close>, so that its
  \<open>oneOf\<close> is an array. An array-valued property of an implicit object may be empty:
  lines 361--370 turn it into a union without alternatives.\<close>

fun safe_schema :: "Schema \<Rightarrow> bool" where
  "safe_schema SUndefined = False"
| "safe_schema (SProp t) = True"
| "safe_schema (SArray xs) = (xs \<noteq> [] \<and> list_all safe_schema xs)"
| "safe_schema (SLiteral kvs) =
     list_all (\<lambda>(k, v). case v of SArray ys \<Rightarrow> list_all safe_schema ys | _ \<Rightarrow> safe_schema v) kvs"
| "safe_schema (SUnion oneOf optional allowedValues) = list_all safe_schema oneOf"
| "safe_schema (SOneOfValue v optional allowedValues) = False"
| "safe_schema (SData t optional allowedValues props addl its) =
     ((case props of None \<Rightarrow> True | Some ps \<Rightarrow> list_all (\<lambda>(k, v). safe_schema v) ps)
      \<and> (case its of None \<Rightarrow> True | Some i \<Rightarrow> safe_schema i))"

text \<open>The error of line 195 is the only one whose message starts with
  \<open>Expected object but received\<close>.\<close>

definition is_expected_object_error :: "ValidationError \<Rightarrow> bool" where
  "is_expected_object_error e = prefix ''Expected object but received '' (message e)"

abbreviation (input) no_expected_object_error :: "ValidationError list \<Rightarrow> bool" where
  "no_expected_object_error errs \<equiv> list_all (\<lambda>e. \<not> is_expected_object_error e) errs"

section \<open>Properties\<close>

text \<open>The unfolding rules that evaluate \<open>validate\<close> on a concrete input.\<close>

lemmas validate_eval =
  validate.simps validate_items.simps show_nat.simps digit_def getTypeOf_def
  get_property_def property_path_def item_path_def type_error_def union_error_def
  allowedValues_error_def check_allowedValues_def expected_object_error_def
  expected_array_error_def unexpected_property_errors_def combine_union_errors_def
  join_primitives_def Let_def

subsection \<open>The classifier\<close>

lemma getTypeOf_object_iff: "getTypeOf data = ''object'' \<longleftrightarrow> (\<exists>kvs. data = JObject kvs)"
  by (cases data rule: typeof.cases) (auto simp: getTypeOf_def)

lemma getTypeOf_array_iff: "getTypeOf data = ''array'' \<longleftrightarrow> isArray data"
  by (cases data rule: typeof.cases) (auto simp: getTypeOf_def)

subsection \<open>The strict flag\<close>

text \<open>
  C2. With the strict flag at its default \<open>true\<close>, validating
  \<open>{ foo: "bar", extra: 123 }\<close> against the implicit object schema \<open>{ foo: STRING }\<close>
  returns exactly one error, the unexpected-property error for the key \<open>extra\<close>; with
  the flag \<open>false\<close> the same call returns no error. The reason is the third fact: the
  implicit object schema is normalised with \<open>additionalProperties\<close> set to the negation
  of the flag.
\<close>

theorem strict_default_additionalProperties:
  "validate strict_default
     (JObject [(''foo'', Primitive (JString ''bar'')), (''extra'', Primitive (JNumber ''123''))])
     (SLiteral [(''foo'', SProp STRING)]) []
   = Inr [\<lparr>path = ''extra'', expected = ''undefined'', received = ''number'',
           message = ''Unexpected property \"extra\"''\<rparr>]
   \<and> validate False
     (JObject [(''foo'', Primitive (JString ''bar'')), (''extra'', Primitive (JNumber ''123''))])
     (SLiteral [(''foo'', SProp STRING)]) []
   = Inr []
   \<and> normalizeSchema strict (SLiteral [(''foo'', SProp STRING)])
   = Inr (SData OBJECT None None (Some [(''foo'', SData STRING None None None None None)])
            (Some (\<not> strict)) None)"
  by (simp add: validate_eval strict_default_def)

subsection \<open>Error paths\<close>


text \<open>In general every error that \<open>validate\<close> returns lies at the path it was called with
  or at an extension of it.\<close>

lemma prefix_property_path: "prefix p (property_path p key)"
  by (simp add: property_path_def)

lemma prefix_item_path: "prefix p (item_path p i)"
  by (simp add: item_path_def)

lemma extends_check_allowedValues:
  "list_all (\<lambda>e. prefix p (path e)) (check_allowedValues av data p)"
  by (simp add: check_allowedValues_def allowedValues_error_def split: option.splits)

lemma extends_unexpected_property_errors:
  "list_all (\<lambda>e. prefix p (path e)) (unexpected_property_errors p addl props dataObj)"
  by (auto simp: unexpected_property_errors_def Let_def list_all_iff prefix_property_path)

lemma extends_combine_union_errors:
  "list_all (list_all (\<lambda>e. prefix p (path e))) allErrors \<Longrightarrow>
     list_all (\<lambda>e. prefix p (path e)) (combine_union_errors p oneOf data allErrors)"
  by (auto simp: combine_union_errors_def Let_def list_all_iff union_error_def)

lemma extends_mono:
  "prefix p q \<Longrightarrow> list_all (\<lambda>e. prefix q (path e)) errs \<Longrightarrow> list_all (\<lambda>e. prefix p (path e)) errs"
  by (auto simp: list_all_iff)

lemma validate_paths_extend:
  "validate strict data schema p = Inr errs \<Longrightarrow> list_all (\<lambda>e. prefix p (path e)) errs"
  "validate_oneOf strict data av alts p acc = Inr (found, es, allErrors) \<Longrightarrow>
     list_all (list_all (\<lambda>e. prefix p (path e))) acc \<Longrightarrow>
     list_all (\<lambda>e. prefix p (path e)) es
     \<and> list_all (list_all (\<lambda>e. prefix p (path e))) allErrors"
  "validate_properties strict dataObj props p errors = Inr errs \<Longrightarrow>
     list_all (\<lambda>e. prefix p (path e)) errors \<Longrightarrow> list_all (\<lambda>e. prefix p (path e)) errs"
  "validate_items strict xs i its p errors = Inr errs \<Longrightarrow>
     list_all (\<lambda>e. prefix p (path e)) errors \<Longrightarrow> list_all (\<lambda>e. prefix p (path e)) errs"
proof (induction strict data schema p and strict data av alts p acc
         and strict dataObj props p errors and strict xs i its p errors
       arbitrary: errs and found es allErrors and errs and errs
       rule: validate_validate_oneOf_validate_properties_validate_items.induct)
  case (1 strict data schema p)
  from "1.prems" obtain n where n: "normalizeSchema strict schema = Inr n"
    by (cases "normalizeSchema strict schema") (simp_all add: validate.simps)
  show ?case
  proof (cases n)
    case (SUnion oneOf optional allowedValues)
    with n have N: "normalizeSchema strict schema = Inr (SUnion oneOf optional allowedValues)"
      by simp
    show ?thesis
    proof (cases "data = Primitive JUndefined")
      case True
      then show ?thesis using "1.prems" N
        by (auto simp: validate.simps union_error_def split: if_splits)
    next
      case False
      then obtain found es allErrors
        where loop: "validate_oneOf strict data allowedValues oneOf p [] = Inr (found, es, allErrors)"
          and res: "errs = (if \<not> found then es @ combine_union_errors p oneOf data allErrors else es)"
        using "1.prems" N
        by (auto simp: validate.simps split: sum.splits if_splits)
      have "list_all (\<lambda>e. prefix p (path e)) es
            \<and> list_all (list_all (\<lambda>e. prefix p (path e))) allErrors"
        using "1.IH"(1) [OF N refl _ False loop] False by simp
      then show ?thesis
        using res by (simp add: extends_combine_union_errors)
    qed
  next
    case (SData dataType optional allowedValues properties additionalProperties items)
    with n have N: "normalizeSchema strict schema
        = Inr (SData dataType optional allowedValues properties additionalProperties items)"
      by simp
    show ?thesis
    proof (cases "(data = Primitive JUndefined \<and> optional = Some True)
                  \<or> getTypeOf data \<noteq> PropType_value dataType")
      case True
      then show ?thesis using "1.prems" N
        by (auto simp: validate.simps type_error_def Let_def split: if_splits)
    next
      case False
      then have nopt: "\<not> (data = Primitive JUndefined \<and> optional = Some True)"
        and ty: "getTypeOf data = PropType_value dataType" by auto
      let ?errors = "check_allowedValues allowedValues data p"
      have okE: "list_all (\<lambda>e. prefix p (path e)) ?errors" by (rule extends_check_allowedValues)
      consider (obj) props where "dataType = OBJECT" "properties = Some props"
        | (arr) its where "dataType = ARRAY" "items = Some its"
        | (plain) "(dataType = OBJECT \<and> properties = None)
                   \<or> (dataType = ARRAY \<and> items = None)
                   \<or> (dataType \<noteq> OBJECT \<and> dataType \<noteq> ARRAY)"
        by (cases properties; cases items; auto)
      then show ?thesis
      proof cases
        case obj
        from ty obj have tobj: "getTypeOf data = ''object''" by simp
        then have nn: "data \<noteq> Primitive JNull" by (auto simp: getTypeOf_object_iff)
        from "1.prems" N nopt ty obj tobj nn obtain errors'
          where loop: "validate_properties strict (object_entries data) props p ?errors = Inr errors'"
            and res: "errs = errors' @ unexpected_property_errors p additionalProperties props
                                        (object_entries data)"
          by (auto simp: validate.simps Let_def split: sum.splits)
        have "list_all (\<lambda>e. prefix p (path e)) errors'"
          using "1.IH"(2) [OF N refl nopt refl _ refl obj(1) obj(2) _ refl loop okE] ty tobj nn
          by simp
        then show ?thesis using res by (simp add: extends_unexpected_property_errors)
      next
        case arr
        from ty arr have tarr: "getTypeOf data = ''array''" by simp
        then have isa: "isArray data" by (simp add: getTypeOf_array_iff)
        from "1.prems" N nopt ty arr isa
        have loop: "validate_items strict (array_elements data) 0 its p ?errors = Inr errs"
          by (auto simp: validate.simps Let_def split: sum.splits)
        show ?thesis
          using "1.IH"(3) [OF N refl nopt refl _ refl _ arr(1) arr(2) _ loop okE] ty arr isa
          by simp
      next
        case plain
        then show ?thesis using "1.prems" N nopt ty okE
          by (auto simp: validate.simps Let_def split: if_splits)
      qed
    qed
  qed (use "1.prems" n in \<open>simp_all add: validate.simps\<close>)
next
  case (2 strict data allowedValues p allErrors)
  then show ?case by simp
next
  case (3 strict data allowedValues subSchema rest p allErrors)
  then show ?case
    by (auto simp: extends_check_allowedValues split: sum.splits if_splits)
next
  case (4 strict dataObj p errors)
  then show ?case by simp
next
  case (5 strict dataObj key propSchema rest p errors)
  from "5.prems"(1) obtain propErrors
    where v: "validate strict (get_property dataObj key) propSchema (property_path p key)
                = Inr propErrors"
      and loop: "validate_properties strict dataObj rest p (errors @ propErrors) = Inr errs"
    by (auto simp: Let_def split: sum.splits)
  from "5.IH"(1) [OF refl v]
  have "list_all (\<lambda>e. prefix p (path e)) propErrors"
    by (rule extends_mono [OF prefix_property_path])
  with "5.prems"(2) have "list_all (\<lambda>e. prefix p (path e)) (errors @ propErrors)" by simp
  from "5.IH"(2) [OF refl v loop this] show ?case .
next
  case (6 strict xs i its p errors)
  show ?case
  proof (cases "i < length xs")
    case False
    then show ?thesis using "6.prems" by (simp add: validate_items.simps)
  next
    case True
    with "6.prems"(1) obtain itemErrors
      where v: "validate strict (xs ! i) its (item_path p i) = Inr itemErrors"
        and loop: "validate_items strict xs (i + 1) its p (errors @ itemErrors) = Inr errs"
      by (subst (asm) validate_items.simps) (auto simp: Let_def split: sum.splits)
    from "6.IH"(1) [OF True refl refl v]
    have "list_all (\<lambda>e. prefix p (path e)) itemErrors"
      by (rule extends_mono [OF prefix_item_path])
    with "6.prems"(2) have "list_all (\<lambda>e. prefix p (path e)) (errors @ itemErrors)" by simp
    from "6.IH"(2) [OF True refl refl v loop this] show ?thesis .
  qed
qed

subsection \<open>Normalisation\<close>

text \<open>Induction over a schema that also gives the hypothesis for the elements of an
  array literal standing directly under a property of an implicit object or under
  \<open>oneOf\<close>: the places where the normaliser maps over an array without normalising the
  array itself.\<close>

lemma Schema_nested_induct [case_names SUndefined SProp SArray SLiteral SUnion SOneOfValue SData]:
  assumes "P SUndefined"
    and "\<And>t. P (SProp t)"
    and "\<And>xs. (\<And>x. x \<in> set xs \<Longrightarrow> P x) \<Longrightarrow> P (SArray xs)"
    and "\<And>kvs. (\<And>k v. (k, v) \<in> set kvs \<Longrightarrow> P v)
           \<Longrightarrow> (\<And>k ys y. (k, SArray ys) \<in> set kvs \<Longrightarrow> y \<in> set ys \<Longrightarrow> P y)
           \<Longrightarrow> P (SLiteral kvs)"
    and "\<And>oneOf optional allowedValues.
           (\<And>x. x \<in> set oneOf \<Longrightarrow> P x) \<Longrightarrow> P (SUnion oneOf optional allowedValues)"
    and "\<And>v optional allowedValues.
           P v \<Longrightarrow> (\<And>xs x. v = SArray xs \<Longrightarrow> x \<in> set xs \<Longrightarrow> P x)
           \<Longrightarrow> P (SOneOfValue v optional allowedValues)"
    and "\<And>t optional allowedValues props addl its.
           (\<And>ps k v. props = Some ps \<Longrightarrow> (k, v) \<in> set ps \<Longrightarrow> P v)
           \<Longrightarrow> (\<And>i. its = Some i \<Longrightarrow> P i)
           \<Longrightarrow> P (SData t optional allowedValues props addl its)"
  shows "P s"
proof -
  have "P s \<and> (\<forall>xs x. s = SArray xs \<longrightarrow> x \<in> set xs \<longrightarrow> P x)"
  proof (induction s)
    case (SArray xs)
    then show ?case using assms(3) by auto
  next
    case (SLiteral kvs)
    show ?case
    proof (intro conjI)
      show "P (SLiteral kvs)"
      proof (rule assms(4))
        fix k v assume "(k, v) \<in> set kvs"
        then show "P v" using SLiteral [of "(k, v)" v] by simp
      next
        fix k ys y assume "(k, SArray ys) \<in> set kvs" "y \<in> set ys"
        then show "P y" using SLiteral [of "(k, SArray ys)" "SArray ys"] by simp
      qed
    qed simp
  next
    case (SUnion oneOf optional allowedValues)
    then show ?case using assms(5) by auto
  next
    case (SOneOfValue v optional allowedValues)
    then show ?case using assms(6) by auto
  next
    case (SData t optional allowedValues props addl its)
    have "P (SData t optional allowedValues props addl its)"
    proof (rule assms(7))
      fix ps k v assume "props = Some ps" "(k, v) \<in> set ps"
      then show "P v" using SData(1) [of ps "(k, v)" v] by simp
    next
      fix i assume "its = Some i"
      then show "P i" using SData(2) [of i] by simp
    qed
    then show ?case by simp
  qed (use assms(1,2) in auto)
  then show ?thesis by simp
qed

lemma list_all2_setD2: "list_all2 R xs ys \<Longrightarrow> y \<in> set ys \<Longrightarrow> \<exists>x \<in> set xs. R x y"
  by (induction rule: list_all2_induct) auto

lemma list_all2_setD1: "list_all2 R xs ys \<Longrightarrow> x \<in> set xs \<Longrightarrow> \<exists>y \<in> set ys. R x y"
  by (induction rule: list_all2_induct) auto

lemma collect_results_fixed:
  assumes "\<And>x. x \<in> set xs \<Longrightarrow> f x = Inr x"
  shows "collect_results (map f xs) = Inr xs"
  using assms by (simp add: collect_results_map list_all2_same)

lemma collect_results_entries_fixed:
  assumes "\<And>k v. (k, v) \<in> set ps \<Longrightarrow> f v = Inr v"
  shows "collect_results (map (\<lambda>(key, v). map_sum id (Pair key) (f v)) ps) = Inr ps"
  using assms by (auto simp: collect_results_entries list_all2_same)

text \<open>The two ways to write a union whose \<open>oneOf\<close> is an array are treated alike.\<close>

lemma normalizeSchema_SOneOfValue_SArray:
  "normalizeSchema strict (SOneOfValue (SArray xs) optional allowedValues)
     = normalizeSchema strict (SUnion xs optional allowedValues)"
  by simp

lemma validate_SOneOfValue_SArray:
  "validate strict data (SOneOfValue (SArray xs) optional allowedValues) p
     = validate strict data (SUnion xs optional allowedValues) p"
  by (simp add: validate.simps)

text \<open>
  C3, amended. \<open>_normalizeSchema\<close> does not return for every schema: on an object whose
  \<open>oneOf\<close> is not an array, such as \<open>{ oneOf: PropType.STRING }\<close>, line 387 calls \<open>map\<close> on
  a value that has none and raises a \<open>TypeError\<close>, at the root or anywhere the normaliser
  descends to. Wherever it does return, normalisation is idempotent: normalising the
  result again returns the same schema, whatever the strict flag is at either call.
\<close>

theorem normalizeSchema_idempotent:
  "normalizeSchema strict s = Inr n \<Longrightarrow> normalizeSchema strict' n = Inr n"
proof (induction s arbitrary: n rule: Schema_nested_induct)
  case (SArray xs)
  then show ?case
    by (cases xs) (auto simp: map_sum_id_Inr_iff split: if_splits)
next
  case (SLiteral kvs)
  let ?g = "\<lambda>v. case v of
              SArray ys \<Rightarrow>
                map_sum id (\<lambda>its. SData ARRAY None None None None (Some its))
                  (case ys of
                     [y] \<Rightarrow> normalizeSchema strict y
                   | _ \<Rightarrow> map_sum id (\<lambda>ns. SUnion ns None None)
                            (collect_results (map (normalizeSchema strict) ys)))
            | _ \<Rightarrow> normalizeSchema strict v"
  from SLiteral.prems obtain ps
    where ps: "list_all2 (\<lambda>(key, v) (key', m). key' = key \<and> ?g v = Inr m) kvs ps"
      and n: "n = SData OBJECT None None (Some ps) (Some (\<not> strict)) None"
    by (auto simp: map_sum_id_Inr_iff collect_results_entries)
  have "normalizeSchema strict' m = Inr m" if "(k, m) \<in> set ps" for k m
  proof -
    from list_all2_setD2 [OF ps that] obtain v where kv: "(k, v) \<in> set kvs" and m: "?g v = Inr m"
      by auto
    show ?thesis
    proof (cases v)
      case (SArray ys)
      then show ?thesis using m by (auto simp: map_sum_id_Inr_iff)
    qed (use SLiteral.IH(1) [OF kv, of m] m in auto)
  qed
  then show ?case using n by (simp add: collect_results_entries_fixed)
next
  case (SUnion oneOf optional allowedValues)
  from SUnion.prems obtain ns
    where ns: "list_all2 (\<lambda>x y. normalizeSchema strict x = Inr y) oneOf ns"
      and n: "n = SUnion ns optional allowedValues"
    by (auto simp: map_sum_id_Inr_iff collect_results_map)
  have "normalizeSchema strict' y = Inr y" if "y \<in> set ns" for y
    using list_all2_setD2 [OF ns that] SUnion.IH by auto
  then show ?case using n by (simp add: collect_results_fixed)
next
  case (SOneOfValue v optional allowedValues)
  from SOneOfValue.prems obtain xs ns
    where v: "v = SArray xs"
      and ns: "list_all2 (\<lambda>x y. normalizeSchema strict x = Inr y) xs ns"
      and n: "n = SUnion ns optional allowedValues"
    by (auto simp: map_sum_id_Inr_iff collect_results_map split: Schema.splits)
  have "normalizeSchema strict' y = Inr y" if "y \<in> set ns" for y
    using list_all2_setD2 [OF ns that] SOneOfValue.IH(2) [OF v] by auto
  then show ?case using n by (simp add: collect_results_fixed)
next
  case (SData t optional allowedValues props addl its)
  show ?case
  proof (cases props)
    case None
    then show ?thesis using SData.prems by auto
  next
    case (Some kvs)
    with SData.prems obtain ps
      where ps: "list_all2 (\<lambda>(key, v) (key', m). key' = key \<and> normalizeSchema strict v = Inr m)
                   kvs ps"
        and n: "n = SData t optional allowedValues (Some ps) addl its"
      by (auto simp: map_sum_id_Inr_iff collect_results_entries)
    have "normalizeSchema strict' m = Inr m" if "(k, m) \<in> set ps" for k m
      using list_all2_setD2 [OF ps that] SData.IH(1) [OF Some] by auto
    then show ?thesis using n by (simp add: collect_results_entries_fixed)
  qed
qed auto

text \<open>The theorem at \<open>{ tags: [STRING, NUMBER], id: { oneOf: [STRING] } }\<close>, normalised with
  the flag \<open>true\<close> and then with the flag \<open>false\<close>.\<close>

theorem normalizeSchema_idempotent_witness:
  "normalizeSchema True
     (SLiteral [(''tags'', SArray [SProp STRING, SProp NUMBER]),
                (''id'', SUnion [SProp STRING] None None)])
   = Inr (SData OBJECT None None
            (Some [(''tags'', SData ARRAY None None None None
                               (Some (SUnion [SData STRING None None None None None,
                                              SData NUMBER None None None None None]
                                        None None))),
                   (''id'', SUnion [SData STRING None None None None None] None None)])
            (Some False) None)
   \<and> normalizeSchema False
     (SData OBJECT None None
        (Some [(''tags'', SData ARRAY None None None None
                           (Some (SUnion [SData STRING None None None None None,
                                          SData NUMBER None None None None None]
                                    None None))),
               (''id'', SUnion [SData STRING None None None None None] None None)])
        (Some False) None)
   = Inr (SData OBJECT None None
            (Some [(''tags'', SData ARRAY None None None None
                               (Some (SUnion [SData STRING None None None None None,
                                              SData NUMBER None None None None None]
                                        None None))),
                   (''id'', SUnion [SData STRING None None None None None] None None)])
            (Some False) None)"
proof -
  have n: "normalizeSchema True
             (SLiteral [(''tags'', SArray [SProp STRING, SProp NUMBER]),
                        (''id'', SUnion [SProp STRING] None None)])
           = Inr (SData OBJECT None None
                    (Some [(''tags'', SData ARRAY None None None None
                                       (Some (SUnion [SData STRING None None None None None,
                                                      SData NUMBER None None None None None]
                                                None None))),
                           (''id'', SUnion [SData STRING None None None None None] None None)])
                    (Some False) None)"
    by simp
  from normalizeSchema_idempotent [OF n, where strict' = False] n show ?thesis by simp
qed

text \<open>C3 as stated fails for \<open>{ oneOf: PropType.STRING }\<close>, a value of the type \<open>Schema\<close> by
  the index signature of \<open>SchemaObject\<close>: normalisation raises a \<open>TypeError\<close> for either
  value of the flag, also when the object is the schema of a property, so there is no
  result to normalise again; and so does \<open>validate\<close>.\<close>

theorem normalizeSchema_oneOf_not_array_counterexample:
  "normalizeSchema True (SOneOfValue (SProp STRING) None None) = Inl TypeError
   \<and> normalizeSchema False (SOneOfValue (SProp STRING) None None) = Inl TypeError
   \<and> normalizeSchema True (SLiteral [(''a'', SOneOfValue (SProp STRING) None None)])
     = Inl TypeError
   \<and> validate True (Primitive (JString ''x'')) (SOneOfValue (SProp STRING) None None) []
     = Inl TypeError"
  by (simp add: validate_eval)

text \<open>What the normaliser returns is never a bare string, an array literal or an implicit
  object, and its \<open>oneOf\<close>, if it has one, is an array.\<close>

lemma normalizeSchema_shape:
  "normalizeSchema strict s \<noteq> Inr (SProp t)"
  "normalizeSchema strict s \<noteq> Inr (SArray xs)"
  "normalizeSchema strict s \<noteq> Inr (SLiteral kvs)"
  "normalizeSchema strict s \<noteq> Inr (SOneOfValue v optional allowedValues)"
  by (cases "(strict, s)" rule: normalizeSchema.cases;
      auto simp: map_sum_id_Inr_iff split: list.splits Schema.splits)+

text \<open>The root of a normalised schema carries exactly one of the two fields.\<close>

lemma normalizeSchema_root:
  "s \<noteq> SUndefined \<Longrightarrow> normalizeSchema strict s = Inr n \<Longrightarrow> exactly_one_of_dataType_oneOf n"
  by (cases "(strict, s)" rule: normalizeSchema.cases)
     (auto simp: exactly_one_of_dataType_oneOf_def map_sum_id_Inr_iff
           split: list.splits Schema.splits if_splits)

text \<open>
  C4 states that every node of a normalised schema carries exactly one of \<open>dataType\<close> and
  \<open>oneOf\<close>. The normaliser recurses into \<open>oneOf\<close>, into \<open>properties\<close> and into array
  literals, but it has no branch for \<open>items\<close>: the explicit array schema
  \<open>{ dataType: ARRAY, items: STRING }\<close> is returned as it is, so the node \<open>items\<close> of the
  result is still the bare string \<open>STRING\<close>, which carries neither field.
\<close>

theorem normalizeSchema_items_not_normalized:
  "normalizeSchema strict (SData ARRAY None None None None (Some (SProp STRING)))
     = Inr (SData ARRAY None None None None (Some (SProp STRING)))
   \<and> schema_nodes (SData ARRAY None None None None (Some (SProp STRING)))
     = [SData ARRAY None None None None (Some (SProp STRING)), SProp STRING]
   \<and> \<not> list_all exactly_one_of_dataType_oneOf
         (schema_nodes (SData ARRAY None None None None (Some (SProp STRING))))"
  by (simp add: exactly_one_of_dataType_oneOf_def)

subsection \<open>Exceptions\<close>

text \<open>
  C5 states that \<open>validate\<close> returns a list for every data value and every schema and never
  throws. \<open>validate\<close> is a total function here, so it always terminates; but for the empty
  array literal \<open>[]\<close> as schema and any non-empty array as data it raises a \<open>TypeError\<close>:
  the item schema is \<open>undefined\<close>, and validating the first element applies \<open>in\<close> to
  it.
\<close>

theorem validate_empty_array_schema_throws:
  "validate strict (JArray (x # xs)) (SArray []) p = Inl TypeError"
  by (simp add: validate_eval)

text \<open>The normaliser returns on every schema that \<open>safe_schema\<close> admits, and what it returns
  is such a schema again.\<close>

lemma safe_list:
  assumes "list_all P xs"
    and "\<And>x. x \<in> set xs \<Longrightarrow> P x \<Longrightarrow> \<exists>n. f x = Inr n \<and> safe_schema n"
  shows "\<exists>ns. collect_results (map f xs) = Inr ns \<and> list_all safe_schema ns
              \<and> length ns = length xs"
  using assms
proof (induction xs)
  case (Cons a xs)
  from Cons.prems obtain n where "f a = Inr n" "safe_schema n" by fastforce
  moreover from Cons obtain ns where
    "collect_results (map f xs) = Inr ns" "list_all safe_schema ns" "length ns = length xs"
    by fastforce
  ultimately show ?case by simp
qed simp

lemma safe_props:
  assumes "list_all (\<lambda>(k, v). P v) ps"
    and "\<And>k v. (k, v) \<in> set ps \<Longrightarrow> P v \<Longrightarrow> \<exists>n. f v = Inr n \<and> safe_schema n"
  shows "\<exists>ns. collect_results (map (\<lambda>(key, v). map_sum id (Pair key) (f v)) ps) = Inr ns
              \<and> list_all (\<lambda>(k, v). safe_schema v) ns"
  using assms
proof (induction ps)
  case (Cons a ps)
  obtain k v where a: "a = (k, v)" by (cases a)
  from Cons.prems a obtain n where n: "f v = Inr n" "safe_schema n" by fastforce
  from Cons obtain ns where
    "collect_results (map (\<lambda>(key, v). map_sum id (Pair key) (f v)) ps) = Inr ns"
    "list_all (\<lambda>(k, v). safe_schema v) ns"
    by fastforce
  then show ?case using a n by (simp add: id_def)
qed simp

lemma safe_schema_normalizeSchema:
  "safe_schema s \<Longrightarrow> \<exists>n. normalizeSchema strict s = Inr n \<and> safe_schema n"
proof (induction s rule: Schema_nested_induct)
  case (SArray xs)
  from SArray.prems have ne: "xs \<noteq> []" and all: "list_all safe_schema xs" by auto
  show ?case
  proof (cases "length xs > 1")
    case True
    from safe_list [OF all, of "normalizeSchema strict"] SArray.IH
    obtain ns where "collect_results (map (normalizeSchema strict) xs) = Inr ns"
      "list_all safe_schema ns" by blast
    then show ?thesis using True by simp
  next
    case False
    with ne obtain a where xs: "xs = [a]" by (cases xs) auto
    with all SArray.IH [of a] obtain m where "normalizeSchema strict a = Inr m" "safe_schema m"
      by auto
    then show ?thesis using xs by simp
  qed
next
  case (SLiteral kvs)
  let ?g = "\<lambda>v. case v of
              SArray ys \<Rightarrow>
                map_sum id (\<lambda>its. SData ARRAY None None None None (Some its))
                  (case ys of
                     [y] \<Rightarrow> normalizeSchema strict y
                   | _ \<Rightarrow> map_sum id (\<lambda>ns. SUnion ns None None)
                            (collect_results (map (normalizeSchema strict) ys)))
            | _ \<Rightarrow> normalizeSchema strict v"
  let ?safe = "\<lambda>v. case v of SArray ys \<Rightarrow> list_all safe_schema ys | _ \<Rightarrow> safe_schema v"
  have g: "\<exists>n. ?g v = Inr n \<and> safe_schema n" if kv: "(k, v) \<in> set kvs" and sv: "?safe v" for k v
  proof (cases v)
    case (SArray ys)
    from sv SArray have all: "list_all safe_schema ys" by simp
    from safe_list [OF all, of "normalizeSchema strict"] SLiteral.IH(2) kv SArray
    obtain ns where ns: "collect_results (map (normalizeSchema strict) ys) = Inr ns"
      "list_all safe_schema ns" "length ns = length ys" by blast
    show ?thesis
    proof (cases ys)
      case Nil
      then show ?thesis using SArray by simp
    next
      case (Cons y rest)
      note ys = Cons
      show ?thesis
      proof (cases rest)
        case Nil
        with ys ns show ?thesis using SArray by (auto split: sum.splits)
      next
        case (Cons z rest')
        with ys ns show ?thesis using SArray by simp
      qed
    qed
  qed (use SLiteral.IH(1) [OF kv] sv in auto)
  from SLiteral.prems have "list_all (\<lambda>(k, v). ?safe v) kvs" by simp
  from safe_props [where P = ?safe and f = ?g, OF this] g
  obtain ps where "collect_results (map (\<lambda>(key, v). map_sum id (Pair key) (?g v)) kvs) = Inr ps"
    "list_all (\<lambda>(k, v). safe_schema v) ps" by blast
  then show ?case by simp
next
  case (SUnion oneOf optional allowedValues)
  from SUnion.prems have all: "list_all safe_schema oneOf" by simp
  from safe_list [OF all, of "normalizeSchema strict"] SUnion.IH
  obtain ns where "collect_results (map (normalizeSchema strict) oneOf) = Inr ns"
    "list_all safe_schema ns" by blast
  then show ?case by simp
next
  case (SData t optional allowedValues props addl its)
  show ?case
  proof (cases props)
    case None
    then show ?thesis using SData.prems by simp
  next
    case (Some ps)
    from SData.prems Some have "list_all (\<lambda>(k, v). safe_schema v) ps" by simp
    from safe_props [where P = safe_schema and f = "normalizeSchema strict", OF this]
      SData.IH(1) [OF Some]
    obtain ns where
      "collect_results (map (\<lambda>(key, v). map_sum id (Pair key) (normalizeSchema strict v)) ps)
         = Inr ns"
      "list_all (\<lambda>(k, v). safe_schema v) ns" by blast
    then show ?thesis using SData.prems Some by simp
  qed
qed simp_all

text \<open>On such a schema the function \<open>validate\<close> defined above returns a list, for every data
  value of the type \<open>JsonValue\<close> defined above.\<close>

lemma validate_returns:
  "safe_schema schema \<Longrightarrow> \<exists>errs. validate strict data schema p = Inr errs"
  "list_all safe_schema alts \<Longrightarrow> \<exists>r. validate_oneOf strict data av alts p acc = Inr r"
  "list_all (\<lambda>(k, v). safe_schema v) props \<Longrightarrow>
     \<exists>errs. validate_properties strict dataObj props p errors = Inr errs"
  "safe_schema its \<Longrightarrow> \<exists>errs. validate_items strict xs i its p errors = Inr errs"
proof (induction strict data schema p and strict data av alts p acc
         and strict dataObj props p errors and strict xs i its p errors
       rule: validate_validate_oneOf_validate_properties_validate_items.induct)
  case (1 strict data schema p)
  from safe_schema_normalizeSchema [OF "1.prems"] obtain n
    where n: "normalizeSchema strict schema = Inr n" and safe: "safe_schema n" by blast
  show ?case
  proof (cases n)
    case SUndefined
    with safe show ?thesis by simp
  next
    case (SProp t)
    then show ?thesis using n by (simp add: normalizeSchema_shape)
  next
    case (SArray xs)
    then show ?thesis using n by (simp add: normalizeSchema_shape)
  next
    case (SLiteral kvs)
    then show ?thesis using n by (simp add: normalizeSchema_shape)
  next
    case (SOneOfValue v optional allowedValues)
    with safe show ?thesis by simp
  next
    case (SUnion oneOf optional allowedValues)
    with n have N: "normalizeSchema strict schema = Inr (SUnion oneOf optional allowedValues)"
      by simp
    show ?thesis
    proof (cases "data = Primitive JUndefined")
      case True
      then show ?thesis using N by (simp add: validate.simps)
    next
      case False
      from safe SUnion have "list_all safe_schema oneOf" by simp
      from "1.IH"(1) [OF N refl _ False this] False
      obtain r where "validate_oneOf strict data allowedValues oneOf p [] = Inr r" by auto
      then show ?thesis using N False
        by (cases r) (simp add: validate.simps)
    qed
  next
    case (SData dataType optional allowedValues properties additionalProperties items)
    with n have N: "normalizeSchema strict schema
        = Inr (SData dataType optional allowedValues properties additionalProperties items)"
      by simp
    show ?thesis
    proof (cases "(data = Primitive JUndefined \<and> optional = Some True)
                  \<or> getTypeOf data \<noteq> PropType_value dataType")
      case True
      then show ?thesis using N
        by (auto simp: validate.simps Let_def)
    next
      case False
      then have nopt: "\<not> (data = Primitive JUndefined \<and> optional = Some True)"
        and ty: "getTypeOf data = PropType_value dataType" by auto
      let ?errors = "check_allowedValues allowedValues data p"
      consider (obj) props where "dataType = OBJECT" "properties = Some props"
        | (arr) its where "dataType = ARRAY" "items = Some its"
        | (plain) "(dataType = OBJECT \<and> properties = None)
                   \<or> (dataType = ARRAY \<and> items = None)
                   \<or> (dataType \<noteq> OBJECT \<and> dataType \<noteq> ARRAY)"
        by (cases properties; cases items; auto)
      then show ?thesis
      proof cases
        case obj
        from ty obj have tobj: "getTypeOf data = ''object''" by simp
        then have nn: "data \<noteq> Primitive JNull" by (auto simp: getTypeOf_object_iff)
        from safe SData obj have sp: "list_all (\<lambda>(k, v). safe_schema v) props" by simp
        from "1.IH"(2) [OF N refl nopt refl _ refl obj(1) obj(2) _ refl sp] ty tobj nn
        obtain errors' where
          "validate_properties strict (object_entries data) props p ?errors = Inr errors'"
          by auto
        then show ?thesis using N nopt ty obj tobj nn
          by (simp add: validate.simps Let_def)
      next
        case arr
        from ty arr have "getTypeOf data = ''array''" by simp
        then have isa: "isArray data" by (simp add: getTypeOf_array_iff)
        from safe SData arr have si: "safe_schema its" by simp
        from "1.IH"(3) [OF N refl nopt refl _ refl _ arr(1) arr(2) _ si] ty arr isa
        obtain errs where
          "validate_items strict (array_elements data) 0 its p ?errors = Inr errs"
          by auto
        then show ?thesis using N nopt ty arr isa
          by (simp add: validate.simps Let_def)
      next
        case plain
        then show ?thesis using N nopt ty
          by (auto simp: validate.simps Let_def)
      qed
    qed
  qed
next
  case (2 strict data allowedValues p allErrors)
  then show ?case by auto
next
  case (3 strict data allowedValues subSchema rest p allErrors)
  from "3.prems" have s: "safe_schema subSchema" and r: "list_all safe_schema rest" by auto
  from "3.IH"(1) [OF s] obtain subErrors
    where v: "validate strict data subSchema p = Inr subErrors" by auto
  show ?case
  proof (cases "length subErrors = 0")
    case True
    then show ?thesis using v by auto
  next
    case False
    from "3.IH"(2) [OF v False r] show ?thesis using v False by simp
  qed
next
  case (4 strict dataObj p errors)
  then show ?case by simp
next
  case (5 strict dataObj key propSchema rest p errors)
  from "5.prems" have s: "safe_schema propSchema"
    and r: "list_all (\<lambda>(k, v). safe_schema v) rest" by auto
  from "5.IH"(1) [OF refl s] obtain propErrors
    where v: "validate strict (get_property dataObj key) propSchema (property_path p key)
                = Inr propErrors" by auto
  from "5.IH"(2) [OF refl v r] show ?case using v by (simp add: Let_def)
next
  case (6 strict xs i its p errors)
  show ?case
  proof (cases "i < length xs")
    case False
    then show ?thesis by (simp add: validate_items.simps)
  next
    case True
    from "6.IH"(1) [OF True refl refl "6.prems"] obtain itemErrors
      where v: "validate strict (xs ! i) its (item_path p i) = Inr itemErrors" by auto
    from "6.IH"(2) [OF True refl refl v "6.prems"] show ?thesis
      using True v by (subst validate_items.simps) (simp add: Let_def)
  qed
qed

subsection \<open>The type check\<close>

lemma type_error_eq:
  "type_error p dataType type =
     \<lparr>path = p, expected = PropType_value dataType, received = type,
      message = ''Expected type '' @ PropType_value dataType @ '' but received '' @ type\<rparr>"
  by (simp add: type_error_def Let_def)

text \<open>The optional short-circuit of line 81: \<open>undefined\<close> passes every optional schema.\<close>

lemma validate_optional_undefined:
  "normalizeSchema strict schema =
     Inr (SData dataType (Some True) allowedValues properties additionalProperties items)
   \<Longrightarrow> validate strict (Primitive JUndefined) schema p = Inr []"
  "normalizeSchema strict schema = Inr (SUnion oneOf (Some True) allowedValues)
   \<Longrightarrow> validate strict (Primitive JUndefined) schema p = Inr []"
  by (simp_all add: validate.simps)

text \<open>
  C6, amended. For a schema whose normal form is not a union, if the classified type of
  the data differs from the schema's \<open>dataType\<close>, and unless the data is \<open>undefined\<close> and
  the schema is optional, \<open>validate\<close> returns exactly one error: at the current path, with
  \<open>expected\<close> the \<open>dataType\<close>, \<open>received\<close> the classified type and the message
  \<open>Expected type X but received Y\<close>. Nothing else is reported for the node: no value
  restriction and no error of a property or an element.
\<close>

theorem validate_type_mismatch:
  assumes "normalizeSchema strict schema =
             Inr (SData dataType optional allowedValues properties additionalProperties items)"
    and "getTypeOf data \<noteq> PropType_value dataType"
    and "\<not> (data = Primitive JUndefined \<and> optional = Some True)"
  shows "validate strict data schema p =
           Inr [\<lparr>path = p, expected = PropType_value dataType, received = getTypeOf data,
                 message = ''Expected type '' @ PropType_value dataType
                             @ '' but received '' @ getTypeOf data\<rparr>]"
  using assms by (simp add: validate.simps type_error_eq Let_def)

text \<open>The theorem at the number \<open>123\<close>, the schema \<open>STRING\<close> and the path \<open>name\<close>.\<close>

theorem validate_type_mismatch_witness:
  "validate True (Primitive (JNumber ''123'')) (SProp STRING) ''name'' =
     Inr [\<lparr>path = ''name'', expected = ''string'', received = ''number'',
           message = ''Expected type string but received number''\<rparr>]"
  using validate_type_mismatch [of True "SProp STRING" STRING None None None None None
      "Primitive (JNumber ''123'')" "''name''"]
  by (simp add: getTypeOf_def)

text \<open>C6 as stated fails for an optional schema and the data \<open>undefined\<close>: the classified
  type \<open>undefined\<close> differs from \<open>string\<close>, and no error is returned.\<close>

theorem type_mismatch_optional_counterexample:
  "normalizeSchema True (SData STRING (Some True) None None None None)
     = Inr (SData STRING (Some True) None None None None)
   \<and> getTypeOf (Primitive JUndefined) \<noteq> PropType_value STRING
   \<and> validate True (Primitive JUndefined) (SData STRING (Some True) None None None None) []
     = Inr []"
  by (simp add: validate_eval)

subsection \<open>Unions\<close>

text \<open>
  C8. For every data value other than \<open>undefined\<close>, validating against a union whose
  \<open>oneOf\<close> is empty returns no error, whatever \<open>optional\<close> and \<open>allowedValues\<close> are.
\<close>

theorem validate_empty_union:
  assumes "data \<noteq> Primitive JUndefined"
  shows "validate strict data (SUnion [] optional allowedValues) p = Inr []"
  using assms by (simp add: validate.simps combine_union_errors_def Let_def)

text \<open>The theorem at a number and at an object.\<close>

theorem validate_empty_union_witness:
  "validate True (Primitive (JNumber ''5'')) (SUnion [] None (Some [JString ''a''])) ''x'' = Inr []
   \<and> validate False (JObject [(''k'', Primitive JNull)]) (SUnion [] (Some True) None) [] = Inr []"
  using validate_empty_union [of "Primitive (JNumber ''5'')" True None "Some [JString ''a'']" "''x''"]
    validate_empty_union [of "JObject [(''k'', Primitive JNull)]" False "Some True" None "[]"]
  by simp

text \<open>The loop over the alternatives when each of them reports at least one error.\<close>

lemma validate_oneOf_no_match:
  assumes "map (\<lambda>s. validate strict data s p) alts = map Inr subs" and "[] \<notin> set subs"
  shows "validate_oneOf strict data av alts p acc = Inr (False, [], acc @ subs)"
  using assms
proof (induction alts arbitrary: subs acc)
  case Nil
  then show ?case by simp
next
  case (Cons a alts)
  then obtain e es where subs: "subs = e # es" by (cases subs) auto
  with Cons.prems have a: "validate strict data a p = Inr e" and "e \<noteq> []"
    and rest: "map (\<lambda>s. validate strict data s p) alts = map Inr es" "[] \<notin> set es"
    by auto
  show ?case
    using a \<open>e \<noteq> []\<close> Cons.IH [OF rest, of "acc @ [e]"] subs by simp
qed

lemma combine_union_errors_eq:
  assumes "[] \<notin> set subs"
  shows "combine_union_errors p oneOf data subs =
           (if list_ex (\<lambda>e. path e \<noteq> p) (concat subs)
            then filter (\<lambda>e. path e \<noteq> p) (concat subs)
            else if subs \<noteq> [] then [union_error p oneOf (getTypeOf data)] else [])"
proof (cases subs)
  case Nil
  then show ?thesis by (simp add: combine_union_errors_def)
next
  case (Cons e es)
  with assms have "e \<noteq> []" by auto
  then have ne: "concat subs \<noteq> []" using Cons by simp
  then obtain x where "x \<in> set (concat subs)" by (cases "concat subs") auto
  then have "list_ex (\<lambda>e. path e \<noteq> p) (concat subs) \<or> list_ex (\<lambda>e. path e = p) (concat subs)"
    unfolding list_ex_iff by blast
  then show ?thesis using ne Cons
    by (auto simp: combine_union_errors_def Let_def)
qed

text \<open>
  C1, amended. Let the normal form of the schema be a union, the data not \<open>undefined\<close>,
  and let every alternative report at least one error (\<open>subErrors\<close> lists what they
  report, in the order of the alternatives). If some reported error has a path other
  than the union's, \<open>validate\<close> returns the reported errors whose path differs from the
  union's, all of them and in the order they were reported (an error that two
  alternatives report is returned twice). Otherwise, if the union has an alternative,
  it returns the single generic union error, whose \<open>received\<close> is the classified type of
  the data; and no error for the union without alternatives.
\<close>

theorem validate_union_no_match:
  assumes "normalizeSchema strict schema = Inr (SUnion oneOf optional allowedValues)"
    and "data \<noteq> Primitive JUndefined"
    and "map (\<lambda>s. validate strict data s p) oneOf = map Inr subErrors"
    and "[] \<notin> set subErrors"
  shows "validate strict data schema p =
           Inr (if list_ex (\<lambda>e. path e \<noteq> p) (concat subErrors)
                then filter (\<lambda>e. path e \<noteq> p) (concat subErrors)
                else if oneOf \<noteq> []
                then [\<lparr>path = p,
                       expected = ''one of '' @ show_nat (length oneOf) @ '' possible types'',
                       received = getTypeOf data,
                       message = ''Value does not match any of the allowed schemas''\<rparr>]
                else [])"
proof -
  have loop: "validate_oneOf strict data allowedValues oneOf p [] = Inr (False, [], subErrors)"
    using validate_oneOf_no_match [OF assms(3,4), of allowedValues "[]"] by simp
  have "(subErrors \<noteq> []) = (oneOf \<noteq> [])"
    using assms(3) by (metis map_is_Nil_conv)
  then show ?thesis
    using assms(1,2) loop combine_union_errors_eq [OF assms(4), of p oneOf data]
    by (simp add: validate.simps union_error_def)
qed

text \<open>The theorem at an object validated against \<open>{ oneOf: [STRING, { a: STRING }] }\<close>
  (an error of a property is surfaced) and at \<open>true\<close> validated against
  \<open>{ oneOf: [STRING, NUMBER] }\<close> (the generic error).\<close>

theorem validate_union_no_match_witness:
  "validate True (JObject [(''a'', Primitive (JNumber ''1''))])
     (SUnion [SProp STRING, SLiteral [(''a'', SProp STRING)]] None None) ''v''
   = Inr [\<lparr>path = ''v.a'', expected = ''string'', received = ''number'',
           message = ''Expected type string but received number''\<rparr>]
   \<and> validate True (Primitive (JBoolean True)) (SUnion [SProp STRING, SProp NUMBER] None None) ''id''
   = Inr [\<lparr>path = ''id'', expected = ''one of 2 possible types'', received = ''boolean'',
           message = ''Value does not match any of the allowed schemas''\<rparr>]"
proof -
  let ?e1 = "\<lparr>path = ''v'', expected = ''string'', received = ''object'',
               message = ''Expected type string but received object''\<rparr>"
  let ?e2 = "\<lparr>path = ''v.a'', expected = ''string'', received = ''number'',
               message = ''Expected type string but received number''\<rparr>"
  let ?f1 = "\<lparr>path = ''id'', expected = ''string'', received = ''boolean'',
               message = ''Expected type string but received boolean''\<rparr>"
  let ?f2 = "\<lparr>path = ''id'', expected = ''number'', received = ''boolean'',
               message = ''Expected type number but received boolean''\<rparr>"
  have n1: "normalizeSchema True (SUnion [SProp STRING, SLiteral [(''a'', SProp STRING)]] None None)
              = Inr (SUnion [SData STRING None None None None None,
                             SData OBJECT None None
                               (Some [(''a'', SData STRING None None None None None)])
                               (Some False) None] None None)"
    by simp
  have n2: "normalizeSchema True (SUnion [SProp STRING, SProp NUMBER] None None)
              = Inr (SUnion [SData STRING None None None None None,
                             SData NUMBER None None None None None] None None)"
    by simp
  have a: "map (\<lambda>s. validate True (JObject [(''a'', Primitive (JNumber ''1''))]) s ''v'')
             [SData STRING None None None None None,
              SData OBJECT None None (Some [(''a'', SData STRING None None None None None)])
                (Some False) None] = map Inr [[?e1], [?e2]]"
    by (simp add: validate_eval)
  have b: "map (\<lambda>s. validate True (Primitive (JBoolean True)) s ''id'')
             [SData STRING None None None None None, SData NUMBER None None None None None]
              = map Inr [[?f1], [?f2]]"
    by (simp add: validate_eval)
  show ?thesis
    using validate_union_no_match [OF n1 _ a] validate_union_no_match [OF n2 _ b]
    by (simp add: show_nat.simps digit_def getTypeOf_def)
qed

text \<open>C1 as stated fails twice. The errors are not deduplicated: when both alternatives
  are \<open>{ a: STRING }\<close>, the error each reports at \<open>a\<close> is returned twice. And the union
  without alternatives returns no error for \<open>null\<close>, not the generic one.\<close>

theorem union_errors_deduplicated_counterexample:
  "validate True (JObject [(''a'', Primitive (JNumber ''1''))]) (SLiteral [(''a'', SProp STRING)]) []
   = Inr [\<lparr>path = ''a'', expected = ''string'', received = ''number'',
           message = ''Expected type string but received number''\<rparr>]
   \<and> validate True (JObject [(''a'', Primitive (JNumber ''1''))])
       (SUnion [SLiteral [(''a'', SProp STRING)], SLiteral [(''a'', SProp STRING)]] None None) []
   = Inr [\<lparr>path = ''a'', expected = ''string'', received = ''number'',
           message = ''Expected type string but received number''\<rparr>,
          \<lparr>path = ''a'', expected = ''string'', received = ''number'',
           message = ''Expected type string but received number''\<rparr>]
   \<and> validate True (Primitive JNull) (SUnion [] None None) [] = Inr []"
  by (simp add: validate_eval)

subsection \<open>The guard of the object block\<close>

lemma expected_object_error_is_expected_object_error:
  "is_expected_object_error (expected_object_error p type)"
  by (simp add: is_expected_object_error_def expected_object_error_def)

lemma not_expected_object_error [simp]:
  "\<not> is_expected_object_error (union_error p oneOf r)"
  "\<not> is_expected_object_error (allowedValues_error p vs data)"
  "\<not> is_expected_object_error (type_error p t ty)"
  "\<not> is_expected_object_error (expected_array_error p ty)"
  by (simp_all add: is_expected_object_error_def union_error_def allowedValues_error_def
        type_error_def expected_array_error_def Let_def)

lemma check_allowedValues_not_expected_object:
  "e \<in> set (check_allowedValues av data p) \<Longrightarrow> \<not> is_expected_object_error e"
  by (auto simp: check_allowedValues_def split: option.splits if_splits)

lemma unexpected_property_errors_not_expected_object:
  "e \<in> set (unexpected_property_errors p addl props dataObj) \<Longrightarrow> \<not> is_expected_object_error e"
  by (auto simp: unexpected_property_errors_def is_expected_object_error_def Let_def
      split: if_splits)

lemma combine_union_errors_not_expected_object:
  assumes "\<And>l e. l \<in> set allErrors \<Longrightarrow> e \<in> set l \<Longrightarrow> \<not> is_expected_object_error e"
    and "e \<in> set (combine_union_errors p oneOf data allErrors)"
  shows "\<not> is_expected_object_error e"
  using assms by (auto simp: combine_union_errors_def Let_def split: if_splits)

lemma ok_check_allowedValues: "no_expected_object_error (check_allowedValues av data p)"
  by (simp add: list_all_iff check_allowedValues_not_expected_object)

lemma ok_unexpected_property_errors:
  "no_expected_object_error (unexpected_property_errors p addl props dataObj)"
  by (simp add: list_all_iff unexpected_property_errors_not_expected_object)

lemma ok_combine_union_errors:
  "list_all no_expected_object_error allErrors \<Longrightarrow>
     no_expected_object_error (combine_union_errors p oneOf data allErrors)"
  unfolding list_all_iff using combine_union_errors_not_expected_object by blast

lemma validate_never_expected_object:
  "validate strict data schema p = Inr errs \<Longrightarrow> no_expected_object_error errs"
  "validate_oneOf strict data av alts p acc = Inr (found, es, allErrors) \<Longrightarrow>
     list_all no_expected_object_error acc \<Longrightarrow>
     no_expected_object_error es \<and> list_all no_expected_object_error allErrors"
  "validate_properties strict dataObj props p errors = Inr errs \<Longrightarrow>
     no_expected_object_error errors \<Longrightarrow> no_expected_object_error errs"
  "validate_items strict xs i its p errors = Inr errs \<Longrightarrow>
     no_expected_object_error errors \<Longrightarrow> no_expected_object_error errs"
proof (induction strict data schema p and strict data av alts p acc
         and strict dataObj props p errors and strict xs i its p errors
       arbitrary: errs and found es allErrors and errs and errs
       rule: validate_validate_oneOf_validate_properties_validate_items.induct)
  case (1 strict data schema p)
  from "1.prems" obtain n where n: "normalizeSchema strict schema = Inr n"
    by (cases "normalizeSchema strict schema") (simp_all add: validate.simps)
  show ?case
  proof (cases n)
    case (SUnion oneOf optional allowedValues)
    with n have N: "normalizeSchema strict schema = Inr (SUnion oneOf optional allowedValues)"
      by simp
    show ?thesis
    proof (cases "data = Primitive JUndefined")
      case True
      then show ?thesis using "1.prems" N
        by (auto simp: validate.simps split: if_splits)
    next
      case False
      then obtain found es allErrors
        where loop: "validate_oneOf strict data allowedValues oneOf p [] = Inr (found, es, allErrors)"
          and res: "errs = (if \<not> found then es @ combine_union_errors p oneOf data allErrors else es)"
        using "1.prems" N
        by (auto simp: validate.simps split: sum.splits if_splits)
      have "no_expected_object_error es \<and> list_all no_expected_object_error allErrors"
        using "1.IH"(1) [OF N refl _ False loop] False by simp
      then show ?thesis
        using res by (simp add: ok_combine_union_errors)
    qed
  next
    case (SData dataType optional allowedValues properties additionalProperties items)
    with n have N: "normalizeSchema strict schema
        = Inr (SData dataType optional allowedValues properties additionalProperties items)"
      by simp
    show ?thesis
    proof (cases "(data = Primitive JUndefined \<and> optional = Some True)
                  \<or> getTypeOf data \<noteq> PropType_value dataType")
      case True
      then show ?thesis using "1.prems" N
        by (auto simp: validate.simps Let_def split: if_splits)
    next
      case False
      then have nopt: "\<not> (data = Primitive JUndefined \<and> optional = Some True)"
        and ty: "getTypeOf data = PropType_value dataType" by auto
      let ?errors = "check_allowedValues allowedValues data p"
      have okE: "no_expected_object_error ?errors" by (rule ok_check_allowedValues)
      consider (obj) props where "dataType = OBJECT" "properties = Some props"
        | (arr) its where "dataType = ARRAY" "items = Some its"
        | (plain) "(dataType = OBJECT \<and> properties = None)
                   \<or> (dataType = ARRAY \<and> items = None)
                   \<or> (dataType \<noteq> OBJECT \<and> dataType \<noteq> ARRAY)"
        by (cases properties; cases items; auto)
      then show ?thesis
      proof cases
        case obj
        from ty obj have tobj: "getTypeOf data = ''object''" by simp
        then have nn: "data \<noteq> Primitive JNull" by (auto simp: getTypeOf_object_iff)
        from "1.prems" N nopt ty obj tobj nn obtain errors'
          where loop: "validate_properties strict (object_entries data) props p ?errors = Inr errors'"
            and res: "errs = errors' @ unexpected_property_errors p additionalProperties props
                                        (object_entries data)"
          by (auto simp: validate.simps Let_def split: sum.splits)
        have "no_expected_object_error errors'"
          using "1.IH"(2) [OF N refl nopt refl _ refl obj(1) obj(2) _ refl loop okE] ty tobj nn
          by simp
        then show ?thesis using res by (simp add: ok_unexpected_property_errors)
      next
        case arr
        from ty arr have tarr: "getTypeOf data = ''array''" by simp
        then have isa: "isArray data" by (simp add: getTypeOf_array_iff)
        from "1.prems" N nopt ty arr isa
        have loop: "validate_items strict (array_elements data) 0 its p ?errors = Inr errs"
          by (auto simp: validate.simps Let_def split: sum.splits)
        show ?thesis
          using "1.IH"(3) [OF N refl nopt refl _ refl _ arr(1) arr(2) _ loop okE] ty arr isa
          by simp
      next
        case plain
        then show ?thesis using "1.prems" N nopt ty okE
          by (auto simp: validate.simps Let_def split: if_splits)
      qed
    qed
  qed (use "1.prems" n in \<open>simp_all add: validate.simps\<close>)
next
  case (2 strict data allowedValues p allErrors)
  then show ?case by simp
next
  case (3 strict data allowedValues subSchema rest p allErrors)
  then show ?case
    by (auto simp: ok_check_allowedValues split: sum.splits if_splits)
next
  case (4 strict dataObj p errors)
  then show ?case by simp
next
  case (5 strict dataObj key propSchema rest p errors)
  then show ?case
    by (auto simp: Let_def split: sum.splits)
next
  case (6 strict xs i its p errors)
  then show ?case
    by (subst (asm) (2) validate_items.simps) (auto simp: Let_def split: sum.splits if_splits)
qed

text \<open>
  C9. The error \<open>Expected object but received ...\<close> of the object block is unreachable.
  The block is entered only after the type check has passed with \<open>dataType\<close> \<open>object\<close>;
  then the classified type is \<open>object\<close>, and the data is neither \<open>null\<close> nor an array,
  so the guard \<open>type !== 'object' || data === null\<close> is false. Hence no list that
  \<open>validate\<close> returns contains that error, for any data, schema, path and strict flag.
\<close>

theorem expected_object_error_unreachable:
  "(getTypeOf data = PropType_value OBJECT \<longrightarrow>
      \<not> (getTypeOf data \<noteq> ''object'' \<or> data = Primitive JNull) \<and> \<not> isArray data)
   \<and> (validate strict data schema p = Inr errs \<longrightarrow>
      list_all (\<lambda>e. \<not> is_expected_object_error e) errs)"
proof -
  have "\<not> (getTypeOf data \<noteq> ''object'' \<or> data = Primitive JNull) \<and> \<not> isArray data"
    if "getTypeOf data = PropType_value OBJECT"
  proof -
    from that obtain kvs where "data = JObject kvs" by (auto simp: getTypeOf_object_iff)
    then show ?thesis by (simp add: getTypeOf_def)
  qed
  moreover have "list_all (\<lambda>e. \<not> is_expected_object_error e) errs"
    if "validate strict data schema p = Inr errs"
    using that by (rule validate_never_expected_object(1))
  ultimately show ?thesis by blast
qed

text \<open>The theorem at an object and at \<open>null\<close>, both validated against an object schema with
  properties: the object passes the guard, and \<open>null\<close> is stopped by the type check.\<close>

theorem expected_object_error_unreachable_witness:
  "getTypeOf (JObject [(''a'', Primitive JNull)]) = PropType_value OBJECT
   \<and> \<not> isArray (JObject [(''a'', Primitive JNull)])
   \<and> validate True (Primitive JNull) (SLiteral [(''a'', SProp NULL)]) []
     = Inr [\<lparr>path = [], expected = ''object'', received = ''null'',
             message = ''Expected type object but received null''\<rparr>]
   \<and> list_all (\<lambda>e. \<not> is_expected_object_error e)
       [\<lparr>path = [], expected = ''object'', received = ''null'',
         message = ''Expected type object but received null''\<rparr>]"
proof -
  let ?e = "\<lparr>path = [], expected = ''object'', received = ''null'',
              message = ''Expected type object but received null''\<rparr>"
  have t: "getTypeOf (JObject [(''a'', Primitive JNull)]) = PropType_value OBJECT"
    by (simp add: getTypeOf_def)
  have v: "validate True (Primitive JNull) (SLiteral [(''a'', SProp NULL)]) [] = Inr [?e]"
    by (simp add: validate_eval)
  show ?thesis
    using expected_object_error_unreachable
            [where data = "Primitive JNull" and strict = True
               and schema = "SLiteral [(''a'', SProp NULL)]" and p = "[]" and errs = "[?e]"]
          expected_object_error_unreachable
            [where data = "JObject [(''a'', Primitive JNull)]" and strict = True
               and schema = "SProp NULL" and p = "[]" and errs = "[]"] t v
    by simp
qed

subsection \<open>The empty list of allowed values\<close>

lemma validate_properties_keeps_errors:
  "validate_properties strict dataObj props p errors = Inr errs \<Longrightarrow> \<exists>rest. errs = errors @ rest"
proof (induction props arbitrary: errors)
  case Nil
  then show ?case by simp
next
  case (Cons kv props)
  obtain key propSchema where kv: "kv = (key, propSchema)" by (cases kv)
  from Cons.prems kv obtain propErrors
    where "validate_properties strict dataObj props p (errors @ propErrors) = Inr errs"
    by (auto simp: Let_def split: sum.splits)
  from Cons.IH [OF this] show ?case by auto
qed

lemma validate_items_keeps_errors:
  "validate_items strict xs i its p errors = Inr errs \<Longrightarrow> \<exists>rest. errs = errors @ rest"
proof (induction "length xs - i" arbitrary: i errors)
  case 0
  then show ?case by (simp add: validate_items.simps)
next
  case (Suc n)
  then have lt: "i < length xs" and n: "n = length xs - (i + 1)" by auto
  from Suc.prems lt obtain itemErrors
    where "validate_items strict xs (i + 1) its p (errors @ itemErrors) = Inr errs"
    by (subst (asm) validate_items.simps) (auto simp: Let_def split: sum.splits)
  from Suc.hyps(1) [OF n this] show ?case by auto
qed

lemma validate_oneOf_match:
  assumes "\<exists>s \<in> set alts. validate strict data s p = Inr []"
    and "validate_oneOf strict data av alts p acc = Inr (found, es, allErrors)"
  shows "found \<and> es = check_allowedValues av data p"
  using assms
proof (induction alts arbitrary: acc)
  case Nil
  then show ?case by simp
next
  case (Cons a alts)
  show ?case
  proof (cases "validate strict data a p")
    case (Inl e)
    then show ?thesis using Cons.prems by simp
  next
    case (Inr subErrors)
    show ?thesis
    proof (cases "subErrors = []")
      case True
      then show ?thesis using Cons.prems Inr by simp
    next
      case False
      with Cons.prems Inr have "\<exists>s \<in> set alts. validate strict data s p = Inr []"
        and "validate_oneOf strict data av alts p (acc @ [subErrors]) = Inr (found, es, allErrors)"
        by auto
      then show ?thesis by (rule Cons.IH)
    qed
  qed
qed

lemma validate_keeps_allowedValues_errors:
  assumes N: "normalizeSchema strict schema =
                Inr (SData dataType optional allowedValues properties additionalProperties items)"
    and ty: "getTypeOf data = PropType_value dataType"
    and nopt: "\<not> (data = Primitive JUndefined \<and> optional = Some True)"
    and v: "validate strict data schema p = Inr errs"
  shows "\<exists>rest. errs = check_allowedValues allowedValues data p @ rest"
proof -
  let ?errors = "check_allowedValues allowedValues data p"
  consider (obj) props where "dataType = OBJECT" "properties = Some props"
    | (arr) its where "dataType = ARRAY" "items = Some its"
    | (plain) "(dataType = OBJECT \<and> properties = None)
               \<or> (dataType = ARRAY \<and> items = None)
               \<or> (dataType \<noteq> OBJECT \<and> dataType \<noteq> ARRAY)"
    by (cases properties; cases items; auto)
  then show ?thesis
  proof cases
    case obj
    show ?thesis
    proof (cases "getTypeOf data \<noteq> ''object'' \<or> data = Primitive JNull")
      case True
      then show ?thesis using v N ty nopt obj
        by (auto simp: validate.simps Let_def)
    next
      case False
      with v N ty nopt obj obtain errors'
        where loop: "validate_properties strict (object_entries data) props p ?errors = Inr errors'"
          and res: "errs = errors' @ unexpected_property_errors p additionalProperties props
                                      (object_entries data)"
        by (auto simp: validate.simps Let_def split: sum.splits)
      from validate_properties_keeps_errors [OF loop] res show ?thesis by auto
    qed
  next
    case arr
    show ?thesis
    proof (cases "isArray data")
      case False
      then show ?thesis using v N ty nopt arr
        by (auto simp: validate.simps Let_def)
    next
      case True
      with v N ty nopt arr
      have "validate_items strict (array_elements data) 0 its p ?errors = Inr errs"
        by (auto simp: validate.simps Let_def)
      from validate_items_keeps_errors [OF this] show ?thesis .
    qed
  next
    case plain
    then show ?thesis using v N ty nopt
      by (auto simp: validate.simps Let_def)
  qed
qed

text \<open>
  C10, amended. The test is for the presence of \<open>allowedValues\<close>, not for a member, so
  the empty list rejects. If the normal form of the schema is not a union, has
  \<open>allowedValues\<close> \<open>[]\<close> and its \<open>dataType\<close> is the classified type of the data, then,
  unless the data is \<open>undefined\<close> and the schema is optional, every list \<open>validate\<close>
  returns contains the value-restriction error. If the normal form is a union with
  \<open>allowedValues\<close> \<open>[]\<close>, the data is not \<open>undefined\<close> and some alternative reports no
  error for it, every list \<open>validate\<close> returns is exactly that error.
\<close>

theorem validate_empty_allowedValues:
  "(normalizeSchema strict schema =
      Inr (SData dataType optional (Some []) properties additionalProperties items)
    \<and> getTypeOf data = PropType_value dataType
    \<and> \<not> (data = Primitive JUndefined \<and> optional = Some True)
    \<and> validate strict data schema p = Inr errs
    \<longrightarrow> \<lparr>path = p, expected = ''one of []'', received = String_value data,
          message = ''Value '' @ String_value data @ '' is not in the allowed set of values''\<rparr>
        \<in> set errs)
   \<and> (normalizeSchema strict schema = Inr (SUnion oneOf optional (Some []))
      \<and> data \<noteq> Primitive JUndefined
      \<and> list_ex (\<lambda>s. validate strict data s p = Inr []) oneOf
      \<and> validate strict data schema p = Inr errs
      \<longrightarrow> errs = [\<lparr>path = p, expected = ''one of []'', received = String_value data,
                    message = ''Value '' @ String_value data
                                @ '' is not in the allowed set of values''\<rparr>])"
proof (intro conjI impI; elim conjE)
  let ?err = "\<lparr>path = p, expected = ''one of []'', received = String_value data,
                message = ''Value '' @ String_value data
                            @ '' is not in the allowed set of values''\<rparr>"
  have chk: "check_allowedValues (Some []) data p = [?err]"
    by (cases data) (simp_all add: check_allowedValues_def allowedValues_error_def
          join_primitives_def)
  {
    assume N: "normalizeSchema strict schema =
                 Inr (SData dataType optional (Some []) properties additionalProperties items)"
      and ty: "getTypeOf data = PropType_value dataType"
      and d: "\<not> (data = Primitive JUndefined \<and> optional = Some True)"
      and v: "validate strict data schema p = Inr errs"
    have "\<exists>rest. errs = check_allowedValues (Some []) data p @ rest"
      using validate_keeps_allowedValues_errors [OF N ty d v] by simp
    then have "\<exists>rest. errs = [?err] @ rest" by (simp only: chk)
    then show "?err \<in> set errs" by auto
  next
    assume N: "normalizeSchema strict schema = Inr (SUnion oneOf optional (Some []))"
      and d: "data \<noteq> Primitive JUndefined"
      and m: "list_ex (\<lambda>s. validate strict data s p = Inr []) oneOf"
      and v: "validate strict data schema p = Inr errs"
    from v N d obtain found es allErrors
      where loop: "validate_oneOf strict data (Some []) oneOf p [] = Inr (found, es, allErrors)"
        and res: "errs = (if \<not> found then es @ combine_union_errors p oneOf data allErrors else es)"
      by (auto simp: validate.simps split: sum.splits if_splits)
    from m have "\<exists>s \<in> set oneOf. validate strict data s p = Inr []"
      by (simp add: list_ex_iff)
    from validate_oneOf_match [OF this loop] res chk
    show "errs = [?err]" by simp
  }
qed

text \<open>The theorem at the string \<open>x\<close>, for the schema
  \<open>{ dataType: STRING, allowedValues: [] }\<close> and for the union
  \<open>{ oneOf: [STRING], allowedValues: [] }\<close>.\<close>

theorem validate_empty_allowedValues_witness:
  "validate True (Primitive (JString ''x'')) (SData STRING None (Some []) None None None) ''s''
     = Inr [\<lparr>path = ''s'', expected = ''one of []'', received = ''x'',
             message = ''Value x is not in the allowed set of values''\<rparr>]
   \<and> validate True (Primitive (JString ''x'')) (SUnion [SProp STRING] None (Some [])) ''s''
     = Inr [\<lparr>path = ''s'', expected = ''one of []'', received = ''x'',
             message = ''Value x is not in the allowed set of values''\<rparr>]"
proof -
  let ?x = "Primitive (JString ''x'')"
  let ?e = "\<lparr>path = ''s'', expected = ''one of []'', received = ''x'',
              message = ''Value x is not in the allowed set of values''\<rparr>"
  obtain errs where v: "validate True ?x (SData STRING None (Some []) None None None) ''s''
                          = Inr errs"
    by (simp add: validate_eval)
  obtain errs' where v': "validate True ?x (SUnion [SProp STRING] None (Some [])) ''s''
                            = Inr errs'"
    by (simp add: validate_eval)
  have t: "getTypeOf ?x = PropType_value STRING"
    by (simp add: getTypeOf_def)
  have m: "list_ex (\<lambda>s. validate True ?x s ''s'' = Inr [])
             [SData STRING None None None None None]"
    by (simp add: validate_eval)
  have "?e \<in> set errs"
    using validate_empty_allowedValues
            [where strict = True and schema = "SData STRING None (Some []) None None None"
               and data = ?x and p = "''s''" and errs = errs and dataType = STRING
               and optional = None and properties = None and additionalProperties = None
               and items = None] v t
    by simp
  moreover have "errs' = [?e]"
    using validate_empty_allowedValues
            [where strict = True and schema = "SUnion [SProp STRING] None (Some [])"
               and data = ?x and p = "''s''" and errs = errs'
               and oneOf = "[SData STRING None None None None None]" and optional = None] v' m
    by simp
  ultimately show ?thesis using v v' by (simp add: validate_eval)
qed

text \<open>C10 as stated fails for the data \<open>undefined\<close>: an optional schema of \<open>dataType\<close>
  \<open>undefined\<close> accepts it, and a union one of whose alternatives accepts it reports the
  generic union error, not a value restriction.\<close>

theorem empty_allowedValues_undefined_counterexample:
  "normalizeSchema True (SData UNDEFINED (Some True) (Some []) None None None)
     = Inr (SData UNDEFINED (Some True) (Some []) None None None)
   \<and> getTypeOf (Primitive JUndefined) = PropType_value UNDEFINED
   \<and> validate True (Primitive JUndefined)
       (SData UNDEFINED (Some True) (Some []) None None None) [] = Inr []
   \<and> validate True (Primitive JUndefined) (SProp UNDEFINED) [] = Inr []
   \<and> validate True (Primitive JUndefined) (SUnion [SProp UNDEFINED] None (Some [])) []
     = Inr [\<lparr>path = [], expected = ''one of 1 possible types'', received = ''undefined'',
             message = ''Value does not match any of the allowed schemas''\<rparr>]"
  by (simp add: validate_eval)

end
